theory Spec2Isabelle
  imports Main "HOL-Library.Word"
begin

section \<open>Shared vocabulary of the two namespaces\<close>

text \<open>
  The repository holds two headers, one per namespace: \<open>ReferenceSemantics\<close> (constants
  prefixed \<open>R_\<close> below) and \<open>ValueSemantics\<close> (prefixed \<open>V_\<close>). Both declare the same
  scoped enum \<open>SubjectSystemTag\<close> and both use \<open>int32_t\<close> values and a
  \<open>std::set<Observer*>\<close> of registered observers.
\<close>

text \<open>\<open>int32_t\<close>: 32 bits, read as two's complement by \<open>sint\<close>.\<close>

type_synonym int32_t = "32 word"

text \<open>An \<open>Observer*\<close>: the address of an observer object.\<close>

type_synonym addr = nat

datatype SubjectSystemTag = ValueA | ValueB

text \<open>
  \<open>SendNotification\<close> dereferences every registered pointer. A registered pointer that
  addresses no live observer (a destroyed observer, \<open>nullptr\<close>) is undefined behaviour
  in C++; the model makes it a value.
\<close>

datatype undefined_behaviour = DanglingObserver

text \<open>
  A log entry for one invocation of \<open>OnNotification\<close>: the receiving observer, the tag
  passed, and what \<open>GetValueA()\<close> and \<open>GetValueB()\<close> answer on the subject passed. The
  log is not program state; it records the calls the broadcast loop makes, in order.
\<close>

type_synonym call = "addr \<times> SubjectSystemTag \<times> int32_t \<times> int32_t"

subsection \<open>\<open>std::set<Observer*>\<close>\<close>

text \<open>
  An ordered set of pointers, kept as the list of its elements in iteration order:
  ascending and without duplicates.
\<close>

definition std_set_inv :: "addr list \<Rightarrow> bool" where
  "std_set_inv xs = (sorted xs \<and> distinct xs)"

text \<open>\<open>insert\<close>: no effect when the key is present, else the key goes to its sorted place.\<close>

definition std_set_insert :: "addr \<Rightarrow> addr list \<Rightarrow> addr list" where
  "std_set_insert p xs = (if p \<in> set xs then xs else insort p xs)"

text \<open>\<open>erase\<close> by key: removes the element equal to the key, if any.\<close>

definition std_set_erase :: "addr \<Rightarrow> addr list \<Rightarrow> addr list" where
  "std_set_erase p xs = removeAll p xs"

section \<open>Namespace \<open>ReferenceSemantics\<close>\<close>

text \<open>
  \<open>SubjectSystem\<close> with the member \<open>m_Observers\<close> it inherits from
  \<open>Subject<SubjectSystem, SubjectSystemTag>\<close>.
\<close>

record R_SubjectSystem =
  R_m_Observers :: "addr list"
  R_m_ValueA :: int32_t
  R_m_ValueB :: int32_t

text \<open>\<open>SubjectSystem subject{}\<close>: the default member initialisers.\<close>

definition R_SubjectSystem_new :: R_SubjectSystem where
  "R_SubjectSystem_new = \<lparr>R_m_Observers = [], R_m_ValueA = 0, R_m_ValueB = 0\<rparr>"

definition R_GetValueA :: "R_SubjectSystem \<Rightarrow> int32_t" where
  "R_GetValueA subject = R_m_ValueA subject"

definition R_GetValueB :: "R_SubjectSystem \<Rightarrow> int32_t" where
  "R_GetValueB subject = R_m_ValueB subject"

text \<open>
  An object behind an \<open>Observer*\<close>: its dynamic class, which selects the override of
  \<open>OnNotification\<close>, and its member \<open>m_Value\<close>.
\<close>

datatype R_Observer = R_SubjectObserverA int32_t | R_SubjectObserverB int32_t

definition R_SubjectObserverA_new :: R_Observer where
  "R_SubjectObserverA_new = R_SubjectObserverA 0"

definition R_SubjectObserverB_new :: R_Observer where
  "R_SubjectObserverB_new = R_SubjectObserverB 0"

fun R_GetValue :: "R_Observer \<Rightarrow> int32_t" where
  "R_GetValue (R_SubjectObserverA m_Value) = m_Value"
| "R_GetValue (R_SubjectObserverB m_Value) = m_Value"

text \<open>The virtual call \<open>observer->OnNotification(subject, tag)\<close>.\<close>

fun R_OnNotification :: "R_Observer \<Rightarrow> R_SubjectSystem \<Rightarrow> SubjectSystemTag \<Rightarrow> R_Observer" where
  "R_OnNotification (R_SubjectObserverA m_Value) subject tag =
     (if tag = ValueA then R_SubjectObserverA (R_GetValueA subject)
      else R_SubjectObserverA m_Value)"
| "R_OnNotification (R_SubjectObserverB m_Value) subject tag =
     (if tag = ValueB then R_SubjectObserverB (R_GetValueB subject)
      else R_SubjectObserverB m_Value)"

text \<open>The subject, the observer objects by address, and the call log.\<close>

record R_world =
  R_subject :: R_SubjectSystem
  R_heap :: "addr \<rightharpoonup> R_Observer"
  R_calls :: "call list"

definition R_AttachObserver :: "addr \<Rightarrow> R_world \<Rightarrow> R_world" where
  "R_AttachObserver observer w =
     w\<lparr>R_subject := (R_subject w)
        \<lparr>R_m_Observers := std_set_insert observer (R_m_Observers (R_subject w))\<rparr>\<rparr>"

definition R_DetachObserver :: "addr \<Rightarrow> R_world \<Rightarrow> R_world" where
  "R_DetachObserver observer w =
     w\<lparr>R_subject := (R_subject w)
        \<lparr>R_m_Observers := std_set_erase observer (R_m_Observers (R_subject w))\<rparr>\<rparr>"

text \<open>The body of the range-for in \<open>SendNotification\<close>, for one pointer of the set.\<close>

definition R_notify :: "addr \<Rightarrow> SubjectSystemTag \<Rightarrow> R_world \<Rightarrow> undefined_behaviour + R_world" where
  "R_notify observer tag w =
     (case R_heap w observer of
        None \<Rightarrow> Inl DanglingObserver
      | Some obj \<Rightarrow>
          Inr (w\<lparr>R_heap := (R_heap w)(observer \<mapsto> R_OnNotification obj (R_subject w) tag),
                 R_calls := R_calls w @
                   [(observer, tag, R_GetValueA (R_subject w), R_GetValueB (R_subject w))]\<rparr>))"

fun R_for_each :: "addr list \<Rightarrow> SubjectSystemTag \<Rightarrow> R_world \<Rightarrow> undefined_behaviour + R_world" where
  "R_for_each [] tag w = Inr w"
| "R_for_each (observer # rest) tag w =
     (case R_notify observer tag w of
        Inl ub \<Rightarrow> Inl ub
      | Inr w' \<Rightarrow> R_for_each rest tag w')"

definition R_SendNotification :: "SubjectSystemTag \<Rightarrow> R_world \<Rightarrow> undefined_behaviour + R_world" where
  "R_SendNotification tag w = R_for_each (R_m_Observers (R_subject w)) tag w"

definition R_SetValueA :: "int32_t \<Rightarrow> R_world \<Rightarrow> undefined_behaviour + R_world" where
  "R_SetValueA v w =
     R_SendNotification ValueA (w\<lparr>R_subject := (R_subject w)\<lparr>R_m_ValueA := v\<rparr>\<rparr>)"

definition R_SetValueB :: "int32_t \<Rightarrow> R_world \<Rightarrow> undefined_behaviour + R_world" where
  "R_SetValueB v w =
     R_SendNotification ValueB (w\<lparr>R_subject := (R_subject w)\<lparr>R_m_ValueB := v\<rparr>\<rparr>)"

section \<open>Namespace \<open>ValueSemantics\<close>\<close>

record V_SubjectSystem =
  V_m_Observers :: "addr list"
  V_m_ValueA :: int32_t
  V_m_ValueB :: int32_t

definition V_SubjectSystem_new :: V_SubjectSystem where
  "V_SubjectSystem_new = \<lparr>V_m_Observers = [], V_m_ValueA = 0, V_m_ValueB = 0\<rparr>"

definition V_GetValueA :: "V_SubjectSystem \<Rightarrow> int32_t" where
  "V_GetValueA subject = V_m_ValueA subject"

definition V_GetValueB :: "V_SubjectSystem \<Rightarrow> int32_t" where
  "V_GetValueB subject = V_m_ValueB subject"

text \<open>
  The \<open>int32_t\<close> variables the callables of this header capture by reference or name:
  the member \<open>m_Value\<close> of the \<open>SubjectObserverA\<close> at an address, the global
  \<open>freeFuncValueB\<close>, and locals of the caller (\<open>lambdaValueB\<close> and \<open>value\<close> in the test
  cases), numbered.
\<close>

datatype variable = m_Value addr | freeFuncValueB | local_variable nat

type_synonym memory = "variable \<Rightarrow> int32_t"

text \<open>
  \<open>std::function<void(const SubjectT&, TagT)>\<close>: any callable of that signature. It
  reads the subject through the const reference and writes the variables it captured.
\<close>

type_synonym V_OnNotificationFunc = "V_SubjectSystem \<Rightarrow> SubjectSystemTag \<Rightarrow> memory \<Rightarrow> memory"

datatype V_Observer = V_Observer (V_m_OnNotification: V_OnNotificationFunc)

definition V_OnNotification :: "V_Observer \<Rightarrow> V_SubjectSystem \<Rightarrow> SubjectSystemTag \<Rightarrow> memory \<Rightarrow> memory" where
  "V_OnNotification observer subject tag mem = V_m_OnNotification observer subject tag mem"

text \<open>The closure \<open>[&value{m_Value}]\<close> that the constructor of \<open>SubjectObserverA\<close> wires.\<close>

definition V_lambda_ValueA :: "variable \<Rightarrow> V_OnNotificationFunc" where
  "V_lambda_ValueA val subject tag mem =
     (if tag = ValueA then mem(val := V_GetValueA subject) else mem)"

text \<open>
  The closure \<open>[&value{lambdaValueB}]\<close> of the unit test (and \<open>[&value]\<close> of the lambda
  benchmark).
\<close>

definition V_lambda_ValueB :: "variable \<Rightarrow> V_OnNotificationFunc" where
  "V_lambda_ValueB val subject tag mem =
     (if tag = ValueB then mem(val := V_GetValueB subject) else mem)"

text \<open>The free function \<open>OnNotification\<close> of the anonymous namespace.\<close>

definition V_free_OnNotification :: V_OnNotificationFunc where
  "V_free_OnNotification subject tag mem =
     (if tag = ValueB then mem(freeFuncValueB := V_GetValueB subject) else mem)"

text \<open>The base-class part of a \<open>SubjectObserverA\<close> constructed at address \<open>this\<close>.\<close>

definition V_SubjectObserverA :: "addr \<Rightarrow> V_Observer" where
  "V_SubjectObserverA this = V_Observer (V_lambda_ValueA (m_Value this))"

text \<open>\<open>SubjectObserverA::GetValue\<close> on the object at \<open>this\<close>.\<close>

definition V_GetValue :: "addr \<Rightarrow> memory \<Rightarrow> int32_t" where
  "V_GetValue this mem = mem (m_Value this)"

record V_world =
  V_subject :: V_SubjectSystem
  V_heap :: "addr \<rightharpoonup> V_Observer"
  V_mem :: memory
  V_calls :: "call list"

definition V_AttachObserver :: "addr \<Rightarrow> V_world \<Rightarrow> V_world" where
  "V_AttachObserver observer w =
     w\<lparr>V_subject := (V_subject w)
        \<lparr>V_m_Observers := std_set_insert observer (V_m_Observers (V_subject w))\<rparr>\<rparr>"

definition V_DetachObserver :: "addr \<Rightarrow> V_world \<Rightarrow> V_world" where
  "V_DetachObserver observer w =
     w\<lparr>V_subject := (V_subject w)
        \<lparr>V_m_Observers := std_set_erase observer (V_m_Observers (V_subject w))\<rparr>\<rparr>"

definition V_notify :: "addr \<Rightarrow> SubjectSystemTag \<Rightarrow> V_world \<Rightarrow> undefined_behaviour + V_world" where
  "V_notify observer tag w =
     (case V_heap w observer of
        None \<Rightarrow> Inl DanglingObserver
      | Some obj \<Rightarrow>
          Inr (w\<lparr>V_mem := V_OnNotification obj (V_subject w) tag (V_mem w),
                 V_calls := V_calls w @
                   [(observer, tag, V_GetValueA (V_subject w), V_GetValueB (V_subject w))]\<rparr>))"

fun V_for_each :: "addr list \<Rightarrow> SubjectSystemTag \<Rightarrow> V_world \<Rightarrow> undefined_behaviour + V_world" where
  "V_for_each [] tag w = Inr w"
| "V_for_each (observer # rest) tag w =
     (case V_notify observer tag w of
        Inl ub \<Rightarrow> Inl ub
      | Inr w' \<Rightarrow> V_for_each rest tag w')"

definition V_SendNotification :: "SubjectSystemTag \<Rightarrow> V_world \<Rightarrow> undefined_behaviour + V_world" where
  "V_SendNotification tag w = V_for_each (V_m_Observers (V_subject w)) tag w"

definition V_SetValueA :: "int32_t \<Rightarrow> V_world \<Rightarrow> undefined_behaviour + V_world" where
  "V_SetValueA v w =
     V_SendNotification ValueA (w\<lparr>V_subject := (V_subject w)\<lparr>V_m_ValueA := v\<rparr>\<rparr>)"

definition V_SetValueB :: "int32_t \<Rightarrow> V_world \<Rightarrow> undefined_behaviour + V_world" where
  "V_SetValueB v w =
     V_SendNotification ValueB (w\<lparr>V_subject := (V_subject w)\<lparr>V_m_ValueB := v\<rparr>\<rparr>)"

section \<open>Constructing observers\<close>

text \<open>
  An observer object comes to life at an address of the caller's choice: the C++
  declarations \<open>SubjectObserverA observerA{}\<close>, \<open>SubjectObserverB observerB{}\<close> and
  \<open>SubjectSystem::Observer observerB{...}\<close>. The subject never allocates or frees one.
\<close>

definition R_construct :: "addr \<Rightarrow> R_Observer \<Rightarrow> R_world \<Rightarrow> R_world" where
  "R_construct this obj w = w\<lparr>R_heap := (R_heap w)(this \<mapsto> obj)\<rparr>"

text \<open>
  \<open>SubjectObserverA\<close> of \<open>ValueSemantics\<close>: the member initialiser \<open>m_Value{0}\<close> and the
  closure over that member.
\<close>

definition V_construct_SubjectObserverA :: "addr \<Rightarrow> V_world \<Rightarrow> V_world" where
  "V_construct_SubjectObserverA this w =
     w\<lparr>V_heap := (V_heap w)(this \<mapsto> V_SubjectObserverA this),
       V_mem := (V_mem w)(m_Value this := 0)\<rparr>"

text \<open>\<open>Observer(OnNotificationFunc&& func)\<close>: the wrapper stores the callable.\<close>

definition V_construct :: "addr \<Rightarrow> V_OnNotificationFunc \<Rightarrow> V_world \<Rightarrow> V_world" where
  "V_construct this func w = w\<lparr>V_heap := (V_heap w)(this \<mapsto> V_Observer func)\<rparr>"

section \<open>Sequences of calls\<close>

datatype operation =
  AttachObserver addr | DetachObserver addr | SetValueA int32_t | SetValueB int32_t

fun is_registration :: "operation \<Rightarrow> bool" where
  "is_registration (AttachObserver p) = True"
| "is_registration (DetachObserver p) = True"
| "is_registration (SetValueA v) = False"
| "is_registration (SetValueB v) = False"

fun R_apply :: "operation \<Rightarrow> R_world \<Rightarrow> undefined_behaviour + R_world" where
  "R_apply (AttachObserver p) w = Inr (R_AttachObserver p w)"
| "R_apply (DetachObserver p) w = Inr (R_DetachObserver p w)"
| "R_apply (SetValueA v) w = R_SetValueA v w"
| "R_apply (SetValueB v) w = R_SetValueB v w"

fun V_apply :: "operation \<Rightarrow> V_world \<Rightarrow> undefined_behaviour + V_world" where
  "V_apply (AttachObserver p) w = Inr (V_AttachObserver p w)"
| "V_apply (DetachObserver p) w = Inr (V_DetachObserver p w)"
| "V_apply (SetValueA v) w = V_SetValueA v w"
| "V_apply (SetValueB v) w = V_SetValueB v w"

text \<open>Running a sequence stops at the first undefined behaviour.\<close>

fun R_run :: "operation list \<Rightarrow> R_world \<Rightarrow> undefined_behaviour + R_world" where
  "R_run [] w = Inr w"
| "R_run (op # ops) w =
     (case R_apply op w of Inl ub \<Rightarrow> Inl ub | Inr w' \<Rightarrow> R_run ops w')"

fun V_run :: "operation list \<Rightarrow> V_world \<Rightarrow> undefined_behaviour + V_world" where
  "V_run [] w = Inr w"
| "V_run (op # ops) w =
     (case V_apply op w of Inl ub \<Rightarrow> Inl ub | Inr w' \<Rightarrow> V_run ops w')"

subsection \<open>What a caller can observe\<close>

text \<open>
  \<open>GetValueA()\<close>, \<open>GetValueB()\<close> and, for each of the listed observers, its cached value
  (\<open>None\<close> where the address holds no observer).
\<close>

type_synonym observation = "int32_t \<times> int32_t \<times> int32_t option list"

definition R_cached :: "R_world \<Rightarrow> addr \<Rightarrow> int32_t option" where
  "R_cached w h = map_option R_GetValue (R_heap w h)"

definition R_observe :: "addr list \<Rightarrow> R_world \<Rightarrow> observation" where
  "R_observe hs w =
     (R_GetValueA (R_subject w), R_GetValueB (R_subject w), map (R_cached w) hs)"

text \<open>
  In \<open>ValueSemantics\<close> the cached value of an observer is the variable its callable
  writes: \<open>cache h\<close> for the observer at \<open>h\<close>.
\<close>

definition V_cached :: "(addr \<Rightarrow> variable) \<Rightarrow> V_world \<Rightarrow> addr \<Rightarrow> int32_t option" where
  "V_cached cache w h = map_option (\<lambda>obj. V_mem w (cache h)) (V_heap w h)"

definition V_observe :: "(addr \<Rightarrow> variable) \<Rightarrow> addr list \<Rightarrow> V_world \<Rightarrow> observation" where
  "V_observe cache hs w =
     (V_GetValueA (V_subject w), V_GetValueB (V_subject w), map (V_cached cache w) hs)"

text \<open>The observation after every step of a sequence.\<close>

fun R_trace :: "addr list \<Rightarrow> operation list \<Rightarrow> R_world \<Rightarrow> (undefined_behaviour + observation) list" where
  "R_trace hs [] w = []"
| "R_trace hs (op # ops) w =
     (case R_apply op w of
        Inl ub \<Rightarrow> [Inl ub]
      | Inr w' \<Rightarrow> Inr (R_observe hs w') # R_trace hs ops w')"

fun V_trace :: "(addr \<Rightarrow> variable) \<Rightarrow> addr list \<Rightarrow> operation list \<Rightarrow> V_world \<Rightarrow> (undefined_behaviour + observation) list" where
  "V_trace cache hs [] w = []"
| "V_trace cache hs (op # ops) w =
     (case V_apply op w of
        Inl ub \<Rightarrow> [Inl ub]
      | Inr w' \<Rightarrow> Inr (V_observe cache hs w') # V_trace cache hs ops w')"

text \<open>How often \<open>OnNotification\<close> has been invoked on the observer at \<open>h\<close>.\<close>

definition invocations :: "addr \<Rightarrow> call list \<Rightarrow> nat" where
  "invocations h calls = length (filter (\<lambda>c. fst c = h) calls)"

text \<open>Every registered pointer addresses a live observer.\<close>

definition R_live :: "R_world \<Rightarrow> bool" where
  "R_live w = list_all (\<lambda>h. R_heap w h \<noteq> None) (R_m_Observers (R_subject w))"

definition V_live :: "V_world \<Rightarrow> bool" where
  "V_live w = list_all (\<lambda>h. V_heap w h \<noteq> None) (V_m_Observers (V_subject w))"

section \<open>The unit tests\<close>

text \<open>
  \<open>TEST_CASE("Observer - Reference Semantics - Unit Tests")\<close> up to the third
  \<open>AttachObserver\<close>: the subject, \<open>observerA\<close>, \<open>observerB\<close> and \<open>observerBB\<close> at three
  addresses, all attached.
\<close>

definition R_unit_test :: "addr \<Rightarrow> addr \<Rightarrow> addr \<Rightarrow> R_world" where
  "R_unit_test observerA observerB observerBB =
     R_AttachObserver observerBB (R_AttachObserver observerB (R_AttachObserver observerA
       (R_construct observerBB R_SubjectObserverB_new
         (R_construct observerB R_SubjectObserverB_new
           (R_construct observerA R_SubjectObserverA_new
             \<lparr>R_subject = R_SubjectSystem_new, R_heap = Map.empty, R_calls = []\<rparr>)))))"

text \<open>
  \<open>TEST_CASE("Observer - Value Semantics - Unit Tests")\<close> up to the third
  \<open>AttachObserver\<close>. \<open>lambdaValueB\<close> is the local variable number 0; it and
  \<open>freeFuncValueB\<close> are set to 0 before the wrappers are attached.
\<close>

definition lambdaValueB :: variable where
  "lambdaValueB = local_variable 0"

definition V_unit_test :: "addr \<Rightarrow> addr \<Rightarrow> addr \<Rightarrow> memory \<Rightarrow> V_world" where
  "V_unit_test observerA observerB observerBB mem =
     V_AttachObserver observerBB (V_AttachObserver observerB (V_AttachObserver observerA
       (V_construct observerBB V_free_OnNotification
         (V_construct observerB (V_lambda_ValueB lambdaValueB)
           (V_construct_SubjectObserverA observerA
             \<lparr>V_subject = V_SubjectSystem_new, V_heap = Map.empty,
              V_mem = mem(lambdaValueB := 0, freeFuncValueB := 0), V_calls = []\<rparr>)))))"

text \<open>
  Where that test reads each observer's cached value: \<open>observerA.GetValue()\<close>,
  \<open>lambdaValueB\<close> for \<open>observerB\<close>, \<open>freeFuncValueB\<close> for \<open>observerBB\<close>.
\<close>

definition V_unit_test_cache :: "addr \<Rightarrow> addr \<Rightarrow> addr \<Rightarrow> addr \<Rightarrow> variable" where
  "V_unit_test_cache observerA observerB observerBB h =
     (if h = observerBB then freeFuncValueB
      else if h = observerB then lambdaValueB
      else m_Value h)"

text \<open>The tag each observer of that test acts on: \<open>observerA\<close> on \<open>ValueA\<close>, the others on \<open>ValueB\<close>.\<close>

definition unit_test_acts_on :: "addr \<Rightarrow> addr \<Rightarrow> SubjectSystemTag" where
  "unit_test_acts_on observerA h = (if h = observerA then ValueA else ValueB)"

section \<open>The free-function benchmark\<close>

text \<open>
  \<open>TEST_CASE("Observer - Value Semantics - Benchmarks Free Function")\<close> with two
  wrappers instead of 250000: each wrapper stores the free function \<open>OnNotification\<close>,
  both are attached, and \<open>freeFuncValueB\<close> is 0.
\<close>

definition V_two_free_wrappers :: V_world where
  "V_two_free_wrappers =
     V_AttachObserver 30 (V_AttachObserver 20
       (V_construct 30 V_free_OnNotification
         (V_construct 20 V_free_OnNotification
           \<lparr>V_subject = V_SubjectSystem_new, V_heap = Map.empty,
            V_mem = (\<lambda>x. 0), V_calls = []\<rparr>)))"

text \<open>
  The cached value of such a wrapper is read from \<open>freeFuncValueB\<close>, as the unit test
  reads it for \<open>observerBB\<close>.
\<close>

definition free_function_cache :: "addr \<Rightarrow> variable" where
  "free_function_cache h = freeFuncValueB"

section \<open>Notions of the specification\<close>

text \<open>
  The net state of a handle after a sequence of calls, in the specification's words:
  attached when its last \<open>AttachObserver\<close> or \<open>DetachObserver\<close> was an
  \<open>AttachObserver\<close>; as before the sequence when the sequence has neither.
\<close>

fun net_attached :: "addr \<Rightarrow> operation list \<Rightarrow> bool \<Rightarrow> bool" where
  "net_attached h [] before = before"
| "net_attached h (AttachObserver p # ops) before =
     net_attached h ops (if p = h then True else before)"
| "net_attached h (DetachObserver p # ops) before =
     net_attached h ops (if p = h then False else before)"
| "net_attached h (SetValueA v # ops) before = net_attached h ops before"
| "net_attached h (SetValueB v # ops) before = net_attached h ops before"

text \<open>
  Every live observer of a \<open>ValueSemantics\<close> world holds one of the header's closures:
  the observer at \<open>h\<close> acts on the tag \<open>acts_on h\<close> and caches into the variable
  \<open>cache h\<close>.
\<close>

fun V_closure :: "SubjectSystemTag \<Rightarrow> variable \<Rightarrow> V_OnNotificationFunc" where
  "V_closure ValueA val = V_lambda_ValueA val"
| "V_closure ValueB val = V_lambda_ValueB val"

definition V_caching :: "(addr \<Rightarrow> SubjectSystemTag) \<Rightarrow> (addr \<Rightarrow> variable) \<Rightarrow> V_world \<Rightarrow> bool" where
  "V_caching acts_on cache w =
     (\<forall>h obj. V_heap w h = Some obj \<longrightarrow>
        V_m_OnNotification obj = V_closure (acts_on h) (cache h))"

text \<open>
  Behaviourally corresponding worlds of the two namespaces: the subjects agree, the same
  addresses hold observers, a \<open>SubjectObserverA\<close> faces a wrapper that acts on \<open>ValueA\<close>
  and a \<open>SubjectObserverB\<close> one that acts on \<open>ValueB\<close>, the wrapper's variable holds the
  object's \<open>m_Value\<close>, and no two wrappers write the same variable.
\<close>

fun R_acts_on :: "R_Observer \<Rightarrow> SubjectSystemTag" where
  "R_acts_on (R_SubjectObserverA v) = ValueA"
| "R_acts_on (R_SubjectObserverB v) = ValueB"

definition corresponding :: "(addr \<Rightarrow> variable) \<Rightarrow> R_world \<Rightarrow> V_world \<Rightarrow> bool" where
  "corresponding cache rw vw =
     (R_m_Observers (R_subject rw) = V_m_Observers (V_subject vw) \<and>
      R_m_ValueA (R_subject rw) = V_m_ValueA (V_subject vw) \<and>
      R_m_ValueB (R_subject rw) = V_m_ValueB (V_subject vw) \<and>
      dom (R_heap rw) = dom (V_heap vw) \<and>
      inj_on cache (dom (R_heap rw)) \<and>
      (\<forall>h robj vobj. R_heap rw h = Some robj \<and> V_heap vw h = Some vobj \<longrightarrow>
         V_m_OnNotification vobj = V_closure (R_acts_on robj) (cache h) \<and>
         V_mem vw (cache h) = R_GetValue robj))"

text \<open>
  No variable is the cache of both an observer that acts on \<open>ValueA\<close> and one that acts
  on \<open>ValueB\<close>.
\<close>

definition V_tags_separate :: "(addr \<Rightarrow> SubjectSystemTag) \<Rightarrow> (addr \<Rightarrow> variable) \<Rightarrow> V_world \<Rightarrow> bool" where
  "V_tags_separate acts_on cache w =
     (\<forall>h h'. V_heap w h \<noteq> None \<and> V_heap w h' \<noteq> None \<and> acts_on h \<noteq> acts_on h' \<longrightarrow>
        cache h \<noteq> cache h')"

text \<open>No other observer caches into the variable of the observer at \<open>h\<close>.\<close>

definition V_own_variable :: "(addr \<Rightarrow> variable) \<Rightarrow> V_world \<Rightarrow> addr \<Rightarrow> bool" where
  "V_own_variable cache w h =
     (\<forall>h'. V_heap w h' \<noteq> None \<and> h' \<noteq> h \<longrightarrow> cache h' \<noteq> cache h)"

section \<open>The registered set\<close>

lemma set_std_set_insert: "set (std_set_insert p xs) = insert p (set xs)"
  by (auto simp: std_set_insert_def set_insort_key)

lemma set_std_set_erase: "set (std_set_erase p xs) = set xs - {p}"
  by (auto simp: std_set_erase_def)

lemma std_set_insert_idem: "std_set_insert p (std_set_insert p xs) = std_set_insert p xs"
  by (simp add: std_set_insert_def set_insort_key)

lemma std_set_inv_insert: "std_set_inv xs \<Longrightarrow> std_set_inv (std_set_insert p xs)"
  by (simp add: std_set_inv_def std_set_insert_def sorted_insort distinct_insort)

lemma std_set_inv_erase: "std_set_inv xs \<Longrightarrow> std_set_inv (std_set_erase p xs)"
  by (simp add: std_set_inv_def std_set_erase_def sorted_wrt_filter removeAll_filter_not_eq)

section \<open>The broadcast loop of \<open>ReferenceSemantics\<close>\<close>

lemmas R_defs = R_SetValueA_def R_SetValueB_def R_SendNotification_def R_notify_def
  R_AttachObserver_def R_DetachObserver_def R_GetValueA_def R_GetValueB_def

lemma R_OnNotification_idem:
  "R_OnNotification (R_OnNotification obj subject tag) subject tag = R_OnNotification obj subject tag"
  by (cases obj) auto

lemma R_notify_subject: "R_notify h tag w = Inr w' \<Longrightarrow> R_subject w' = R_subject w"
  by (auto simp: R_notify_def split: option.splits)

lemma R_notify_calls: "R_notify h tag w = Inr w' \<Longrightarrow>
  R_calls w' = R_calls w @ [(h, tag, R_GetValueA (R_subject w), R_GetValueB (R_subject w))]"
  by (auto simp: R_notify_def split: option.splits)

lemma R_notify_heap: "R_notify h tag w = Inr w' \<Longrightarrow>
  R_heap w' = (R_heap w)(h := map_option (\<lambda>obj. R_OnNotification obj (R_subject w) tag) (R_heap w h))"
  by (auto simp: R_notify_def split: option.splits)

lemma R_notify_Inr_iff: "(\<exists>w'. R_notify h tag w = Inr w') \<longleftrightarrow> R_heap w h \<noteq> None"
  by (auto simp: R_notify_def split: option.splits)

text \<open>
  What a completed loop has done: every pointer was live, the subject is untouched, one
  call per element was logged, and exactly the objects behind the elements were notified.
\<close>

lemma R_for_each_Inr:
  "R_for_each xs tag w = Inr w' \<Longrightarrow>
     list_all (\<lambda>h. R_heap w h \<noteq> None) xs \<and>
     R_subject w' = R_subject w \<and>
     R_calls w' = R_calls w @
       map (\<lambda>h. (h, tag, R_GetValueA (R_subject w), R_GetValueB (R_subject w))) xs \<and>
     (\<forall>h. R_heap w' h =
        (if h \<in> set xs
         then map_option (\<lambda>obj. R_OnNotification obj (R_subject w) tag) (R_heap w h)
         else R_heap w h))"
proof (induction xs arbitrary: w)
  case Nil
  then show ?case by simp
next
  case (Cons x xs)
  from Cons.prems obtain w1
    where n: "R_notify x tag w = Inr w1" and r: "R_for_each xs tag w1 = Inr w'"
    by (auto split: sum.splits)
  note ih = Cons.IH [OF r]
  note s = R_notify_subject [OF n] and c = R_notify_calls [OF n] and h = R_notify_heap [OF n]
  have live: "R_heap w x \<noteq> None"
    using n R_notify_Inr_iff by blast
  show ?case
    using ih live
    by (auto simp: s c h list_all_iff R_OnNotification_idem option.map_comp comp_def
        split: if_splits)
qed

lemma R_for_each_live:
  "list_all (\<lambda>h. R_heap w h \<noteq> None) xs \<Longrightarrow> \<exists>w'. R_for_each xs tag w = Inr w'"
proof (induction xs arbitrary: w)
  case Nil
  then show ?case by simp
next
  case (Cons x xs)
  then obtain w1 where n: "R_notify x tag w = Inr w1"
    using R_notify_Inr_iff [of x tag w] by auto
  have "list_all (\<lambda>h. R_heap w1 h \<noteq> None) xs"
    using Cons.prems by (auto simp: R_notify_heap [OF n] list_all_iff)
  from Cons.IH [OF this] show ?case
    using n by simp
qed

lemma R_SendNotification_Inr:
  assumes "R_SendNotification tag w = Inr w'"
  shows "R_live w \<and> R_subject w' = R_subject w \<and>
     R_calls w' = R_calls w @
       map (\<lambda>h. (h, tag, R_GetValueA (R_subject w), R_GetValueB (R_subject w)))
         (R_m_Observers (R_subject w)) \<and>
     (\<forall>h. R_heap w' h =
        (if h \<in> set (R_m_Observers (R_subject w))
         then map_option (\<lambda>obj. R_OnNotification obj (R_subject w) tag) (R_heap w h)
         else R_heap w h))"
  using R_for_each_Inr [of "R_m_Observers (R_subject w)" tag w w'] assms
  unfolding R_SendNotification_def R_live_def by blast

lemma R_SendNotification_live:
  assumes "R_live w"
  shows "\<exists>w'. R_SendNotification tag w = Inr w'"
  using assms R_for_each_live unfolding R_live_def R_SendNotification_def by blast

section \<open>The broadcast loop of \<open>ValueSemantics\<close>\<close>

lemmas V_defs = V_SetValueA_def V_SetValueB_def V_SendNotification_def V_notify_def
  V_AttachObserver_def V_DetachObserver_def V_GetValueA_def V_GetValueB_def
  V_OnNotification_def

lemma V_notify_Inr:
  "V_notify h tag w = Inr w' \<Longrightarrow>
     V_heap w h \<noteq> None \<and> V_subject w' = V_subject w \<and> V_heap w' = V_heap w \<and>
     V_calls w' = V_calls w @ [(h, tag, V_GetValueA (V_subject w), V_GetValueB (V_subject w))] \<and>
     V_mem w' = V_m_OnNotification (the (V_heap w h)) (V_subject w) tag (V_mem w)"
  by (auto simp: V_notify_def V_OnNotification_def split: option.splits)

lemma V_notify_live: "V_heap w h \<noteq> None \<Longrightarrow> \<exists>w'. V_notify h tag w = Inr w'"
  by (auto simp: V_notify_def)

lemma V_for_each_Inr:
  "V_for_each xs tag w = Inr w' \<Longrightarrow>
     list_all (\<lambda>h. V_heap w h \<noteq> None) xs \<and>
     V_subject w' = V_subject w \<and> V_heap w' = V_heap w \<and>
     V_calls w' = V_calls w @
       map (\<lambda>h. (h, tag, V_GetValueA (V_subject w), V_GetValueB (V_subject w))) xs"
proof (induction xs arbitrary: w)
  case Nil
  then show ?case by simp
next
  case (Cons x xs)
  from Cons.prems obtain w1
    where n: "V_notify x tag w = Inr w1" and r: "V_for_each xs tag w1 = Inr w'"
    by (auto split: sum.splits)
  show ?case
    using Cons.IH [OF r] V_notify_Inr [OF n] by simp
qed

lemma V_for_each_live:
  "list_all (\<lambda>h. V_heap w h \<noteq> None) xs \<Longrightarrow> \<exists>w'. V_for_each xs tag w = Inr w'"
proof (induction xs arbitrary: w)
  case Nil
  then show ?case by simp
next
  case (Cons x xs)
  then obtain w1 where n: "V_notify x tag w = Inr w1"
    using V_notify_live [of w x tag] by auto
  have "list_all (\<lambda>h. V_heap w1 h \<noteq> None) xs"
    using Cons.prems V_notify_Inr [OF n] by simp
  from Cons.IH [OF this] show ?case
    using n by simp
qed

lemma V_closure_apply:
  "V_closure t val subject tag mem =
     (if tag = t
      then mem(val := (case t of ValueA \<Rightarrow> V_m_ValueA subject | ValueB \<Rightarrow> V_m_ValueB subject))
      else mem)"
  by (cases t) (simp_all add: V_lambda_ValueA_def V_lambda_ValueB_def V_GetValueA_def V_GetValueB_def)

text \<open>
  The memory after a completed loop over wrappers that hold the header's closures: a
  variable holds the subject's value for the tag when a notified wrapper acts on the tag
  and caches into it, and is untouched otherwise.
\<close>

lemma V_for_each_mem:
  "V_for_each xs tag w = Inr w' \<Longrightarrow>
   \<forall>h\<in>set xs. \<forall>obj. V_heap w h = Some obj \<longrightarrow>
     V_m_OnNotification obj = V_closure (acts_on h) (cache h) \<Longrightarrow>
   V_mem w' x =
     (if \<exists>h\<in>set xs. acts_on h = tag \<and> cache h = x
      then (case tag of ValueA \<Rightarrow> V_m_ValueA (V_subject w) | ValueB \<Rightarrow> V_m_ValueB (V_subject w))
      else V_mem w x)"
proof (induction xs arbitrary: w)
  case Nil
  then show ?case by simp
next
  case (Cons y ys)
  from Cons.prems(1) obtain w1
    where n: "V_notify y tag w = Inr w1" and r: "V_for_each ys tag w1 = Inr w'"
    by (auto split: sum.splits)
  note f = V_notify_Inr [OF n]
  from f obtain obj where o: "V_heap w y = Some obj"
    by auto
  with Cons.prems(2) have c: "V_m_OnNotification obj = V_closure (acts_on y) (cache y)"
    by simp
  have m1: "V_mem w1 = V_closure (acts_on y) (cache y) (V_subject w) tag (V_mem w)"
    using f o c by simp
  have s1: "V_subject w1 = V_subject w"
    using f by simp
  have "\<forall>h\<in>set ys. \<forall>obj. V_heap w1 h = Some obj \<longrightarrow>
      V_m_OnNotification obj = V_closure (acts_on h) (cache h)"
    using Cons.prems(2) f by simp
  note ih = Cons.IH [OF r this]
  show ?case
    unfolding ih s1 m1 by (auto simp: V_closure_apply)
qed

lemma V_SendNotification_Inr:
  assumes "V_SendNotification tag w = Inr w'"
  shows "V_live w \<and> V_subject w' = V_subject w \<and> V_heap w' = V_heap w \<and>
     V_calls w' = V_calls w @
       map (\<lambda>h. (h, tag, V_GetValueA (V_subject w), V_GetValueB (V_subject w)))
         (V_m_Observers (V_subject w))"
  using V_for_each_Inr [of "V_m_Observers (V_subject w)" tag w w'] assms
  unfolding V_SendNotification_def V_live_def by blast

lemma V_SendNotification_live:
  assumes "V_live w"
  shows "\<exists>w'. V_SendNotification tag w = Inr w'"
  using assms V_for_each_live unfolding V_live_def V_SendNotification_def by blast

text \<open>The memory after a completed loop: the stored callables applied in iteration order.\<close>

lemma V_for_each_fold:
  "V_for_each xs tag w = Inr w' \<Longrightarrow>
   V_mem w' =
     fold (\<lambda>h mem. case V_heap w h of
                      None \<Rightarrow> mem
                    | Some obj \<Rightarrow> V_OnNotification obj (V_subject w) tag mem)
       xs (V_mem w)"
proof (induction xs arbitrary: w)
  case Nil
  then show ?case by simp
next
  case (Cons x xs)
  from Cons.prems obtain w1
    where n: "V_notify x tag w = Inr w1" and r: "V_for_each xs tag w1 = Inr w'"
    by (auto split: sum.splits)
  note f = V_notify_Inr [OF n]
  from f obtain obj where o: "V_heap w x = Some obj"
    by auto
  have s1: "V_subject w1 = V_subject w" and h1: "V_heap w1 = V_heap w"
    and m1: "V_mem w1 = V_OnNotification obj (V_subject w) tag (V_mem w)"
    using f o by (simp_all add: V_OnNotification_def)
  show ?case
    unfolding Cons.IH [OF r] s1 h1 m1 using o by simp
qed

lemma V_SendNotification_fold:
  assumes "V_SendNotification tag w = Inr w'"
  shows "V_mem w' =
     fold (\<lambda>h mem. case V_heap w h of
                      None \<Rightarrow> mem
                    | Some obj \<Rightarrow> V_OnNotification obj (V_subject w) tag mem)
       (V_m_Observers (V_subject w)) (V_mem w)"
  using assms V_for_each_fold unfolding V_SendNotification_def by blast

lemma R_SendNotification_dangling:
  assumes "\<not> R_live w"
  shows "R_SendNotification tag w = Inl DanglingObserver"
proof (cases "R_SendNotification tag w")
  case (Inl ub)
  then show ?thesis
    by (cases ub) simp
next
  case (Inr w')
  from R_SendNotification_Inr [OF this] assms show ?thesis
    by simp
qed

lemma V_SendNotification_dangling:
  assumes "\<not> V_live w"
  shows "V_SendNotification tag w = Inl DanglingObserver"
proof (cases "V_SendNotification tag w")
  case (Inl ub)
  then show ?thesis
    by (cases ub) simp
next
  case (Inr w')
  from V_SendNotification_Inr [OF this] assms show ?thesis
    by simp
qed

lemmas unit_test_defs = R_unit_test_def R_construct_def R_SubjectSystem_new_def
  R_SubjectObserverA_new_def R_SubjectObserverB_new_def
  V_unit_test_def V_construct_def V_construct_SubjectObserverA_def V_SubjectSystem_new_def
  V_SubjectObserverA_def V_lambda_ValueA_def V_lambda_ValueB_def V_free_OnNotification_def
  lambdaValueB_def V_unit_test_cache_def std_set_insert_def std_set_erase_def

lemma unit_test_R_live: "R_live (R_unit_test 10 20 30)"
  by (simp add: unit_test_defs R_live_def R_AttachObserver_def)

lemma unit_test_V_live: "V_live (V_unit_test 10 20 30 (\<lambda>x. 0))"
  by (simp add: unit_test_defs V_live_def V_AttachObserver_def)

lemma unit_test_R_observers: "R_m_Observers (R_subject (R_unit_test 10 20 30)) = [10, 20, 30]"
  by (simp add: unit_test_defs R_AttachObserver_def)

lemma unit_test_V_observers: "V_m_Observers (V_subject (V_unit_test 10 20 30 mem)) = [10, 20, 30]"
  by (simp add: unit_test_defs V_AttachObserver_def)

lemma V_free_OnNotification_closure: "V_free_OnNotification = V_lambda_ValueB freeFuncValueB"
  by (intro ext) (simp add: V_free_OnNotification_def V_lambda_ValueB_def)

lemma unit_test_V_heap:
  "V_heap (V_unit_test 10 20 30 mem) =
     [10 \<mapsto> V_SubjectObserverA 10, 20 \<mapsto> V_Observer (V_lambda_ValueB lambdaValueB),
      30 \<mapsto> V_Observer V_free_OnNotification]"
  by (simp add: V_unit_test_def V_construct_def V_construct_SubjectObserverA_def V_AttachObserver_def)

lemma unit_test_R_heap:
  "R_heap (R_unit_test 10 20 30) =
     [10 \<mapsto> R_SubjectObserverA 0, 20 \<mapsto> R_SubjectObserverB 0, 30 \<mapsto> R_SubjectObserverB 0]"
  by (simp add: R_unit_test_def R_construct_def R_AttachObserver_def
      R_SubjectObserverA_new_def R_SubjectObserverB_new_def)

lemma unit_test_V_caching:
  "V_caching (unit_test_acts_on 10) (V_unit_test_cache 10 20 30) (V_unit_test 10 20 30 mem)"
  unfolding V_caching_def unit_test_V_heap
  by (auto simp: unit_test_acts_on_def V_unit_test_cache_def V_SubjectObserverA_def
      V_free_OnNotification_closure split: if_splits)

lemma unit_test_V_tags_separate:
  "V_tags_separate (unit_test_acts_on 10) (V_unit_test_cache 10 20 30) (V_unit_test 10 20 30 mem)"
  unfolding V_tags_separate_def unit_test_V_heap
  by (auto simp: unit_test_acts_on_def V_unit_test_cache_def lambdaValueB_def split: if_splits)

lemma unit_test_V_own_variable:
  "V_own_variable (V_unit_test_cache 10 20 30) (V_unit_test 10 20 30 mem) 30"
  unfolding V_own_variable_def unit_test_V_heap
  by (auto simp: V_unit_test_cache_def lambdaValueB_def split: if_splits)

lemma unit_test_corresponding:
  "corresponding (V_unit_test_cache 10 20 30) (R_unit_test 10 20 30) (V_unit_test 10 20 30 (\<lambda>x. 0))"
proof -
  have mem: "V_mem (V_unit_test 10 20 30 (\<lambda>x. 0)) = (\<lambda>x. 0)"
    by (auto simp: unit_test_defs V_AttachObserver_def)
  have vals: "R_m_ValueA (R_subject (R_unit_test 10 20 30)) = 0"
    "R_m_ValueB (R_subject (R_unit_test 10 20 30)) = 0"
    "V_m_ValueA (V_subject (V_unit_test 10 20 30 (\<lambda>x. 0))) = 0"
    "V_m_ValueB (V_subject (V_unit_test 10 20 30 (\<lambda>x. 0))) = 0"
    by (simp_all add: unit_test_defs R_AttachObserver_def V_AttachObserver_def)
  show ?thesis
    unfolding corresponding_def unit_test_R_heap unit_test_V_heap
      unit_test_R_observers unit_test_V_observers mem vals
    by (auto simp: V_unit_test_cache_def lambdaValueB_def V_SubjectObserverA_def
        V_free_OnNotification_closure split: if_splits)
qed

section \<open>Initial values\<close>

text \<open>
  C9: a freshly constructed \<open>SubjectSystem\<close> answers 0 to \<open>GetValueA()\<close> and to
  \<open>GetValueB()\<close>, and a freshly constructed observer caches 0, in both namespaces:
  \<open>SubjectObserverA\<close> and \<open>SubjectObserverB\<close> of \<open>ReferenceSemantics\<close>, and
  \<open>SubjectObserverA\<close> of \<open>ValueSemantics\<close> (which declares no \<open>SubjectObserverB\<close>),
  whatever was at its address and in its member before.
\<close>

theorem fresh_values_are_zero:
  "R_GetValueA R_SubjectSystem_new = 0 \<and> R_GetValueB R_SubjectSystem_new = 0 \<and>
   R_GetValue R_SubjectObserverA_new = 0 \<and> R_GetValue R_SubjectObserverB_new = 0 \<and>
   R_cached (R_construct this R_SubjectObserverA_new rw) this = Some 0 \<and>
   R_cached (R_construct this R_SubjectObserverB_new rw) this = Some 0 \<and>
   V_GetValueA V_SubjectSystem_new = 0 \<and> V_GetValueB V_SubjectSystem_new = 0 \<and>
   V_GetValue this (V_mem (V_construct_SubjectObserverA this vw)) = 0 \<and>
   V_cached m_Value (V_construct_SubjectObserverA this vw) this = Some 0"
  by (simp add: R_GetValueA_def R_GetValueB_def R_SubjectSystem_new_def
      R_SubjectObserverA_new_def R_SubjectObserverB_new_def R_cached_def R_construct_def
      V_GetValueA_def V_GetValueB_def V_SubjectSystem_new_def V_GetValue_def
      V_construct_SubjectObserverA_def V_cached_def)

section \<open>The scenario of the unit tests\<close>

text \<open>
  C1: with \<open>observerA\<close>, \<open>observerB\<close> and \<open>observerBB\<close> at any three distinct addresses,
  attached to a fresh subject, the calls \<open>SetValueA(1)\<close>, \<open>SetValueB(2)\<close>,
  \<open>DetachObserver(&observerBB)\<close>, \<open>SetValueB(3)\<close> leave, step by step: values (1, 0) and
  caches 1, 0, 0; values (1, 2) and caches 1, 2, 2; the same after the detach; values
  (1, 3) and caches 1, 3, 2. This holds in both namespaces.
\<close>

theorem unit_test_scenario:
  assumes "distinct [a, b, bb]"
  shows
    "R_trace [a, b, bb] [SetValueA 1, SetValueB 2, DetachObserver bb, SetValueB 3]
       (R_unit_test a b bb) =
       [Inr (1, 0, [Some 1, Some 0, Some 0]), Inr (1, 2, [Some 1, Some 2, Some 2]),
        Inr (1, 2, [Some 1, Some 2, Some 2]), Inr (1, 3, [Some 1, Some 3, Some 2])] \<and>
     V_trace (V_unit_test_cache a b bb) [a, b, bb]
       [SetValueA 1, SetValueB 2, DetachObserver bb, SetValueB 3] (V_unit_test a b bb mem) =
       [Inr (1, 0, [Some 1, Some 0, Some 0]), Inr (1, 2, [Some 1, Some 2, Some 2]),
        Inr (1, 2, [Some 1, Some 2, Some 2]), Inr (1, 3, [Some 1, Some 3, Some 2])]"
proof
  show "R_trace [a, b, bb] [SetValueA 1, SetValueB 2, DetachObserver bb, SetValueB 3]
       (R_unit_test a b bb) =
       [Inr (1, 0, [Some 1, Some 0, Some 0]), Inr (1, 2, [Some 1, Some 2, Some 2]),
        Inr (1, 2, [Some 1, Some 2, Some 2]), Inr (1, 3, [Some 1, Some 3, Some 2])]"
    using assms by (auto simp add: unit_test_defs R_defs R_observe_def R_cached_def)
  show "V_trace (V_unit_test_cache a b bb) [a, b, bb]
       [SetValueA 1, SetValueB 2, DetachObserver bb, SetValueB 3] (V_unit_test a b bb mem) =
       [Inr (1, 0, [Some 1, Some 0, Some 0]), Inr (1, 2, [Some 1, Some 2, Some 2]),
        Inr (1, 2, [Some 1, Some 2, Some 2]), Inr (1, 3, [Some 1, Some 3, Some 2])]"
    using assms by (auto simp add: unit_test_defs V_defs V_observe_def V_cached_def)
qed

theorem unit_test_scenario_witness:
  "distinct [3, 1, 2 :: nat] \<and>
   R_trace [3, 1, 2] [SetValueA 1, SetValueB 2, DetachObserver 2, SetValueB 3]
     (R_unit_test 3 1 2) =
     [Inr (1, 0, [Some 1, Some 0, Some 0]), Inr (1, 2, [Some 1, Some 2, Some 2]),
      Inr (1, 2, [Some 1, Some 2, Some 2]), Inr (1, 3, [Some 1, Some 3, Some 2])] \<and>
   V_trace (V_unit_test_cache 3 1 2) [3, 1, 2]
     [SetValueA 1, SetValueB 2, DetachObserver 2, SetValueB 3]
     (V_unit_test 3 1 2 (\<lambda>x. 7)) =
     [Inr (1, 0, [Some 1, Some 0, Some 0]), Inr (1, 2, [Some 1, Some 2, Some 2]),
      Inr (1, 2, [Some 1, Some 2, Some 2]), Inr (1, 3, [Some 1, Some 3, Some 2])]"
  using unit_test_scenario [of 3 1 2 "\<lambda>x. 7"] by simp

section \<open>Registration\<close>

text \<open>
  C4: \<open>AttachObserver\<close> is idempotent. In every world and for every handle, attaching
  twice leaves the world that attaching once leaves, and neither call is undefined
  behaviour or any other failure: the sequence of two runs to the end, as the single
  call does. This holds in both namespaces.
\<close>

theorem AttachObserver_idempotent:
  "R_AttachObserver h (R_AttachObserver h rw) = R_AttachObserver h rw \<and>
   R_run [AttachObserver h, AttachObserver h] rw = Inr (R_AttachObserver h rw) \<and>
   R_run [AttachObserver h] rw = Inr (R_AttachObserver h rw) \<and>
   V_AttachObserver h (V_AttachObserver h vw) = V_AttachObserver h vw \<and>
   V_run [AttachObserver h, AttachObserver h] vw = Inr (V_AttachObserver h vw) \<and>
   V_run [AttachObserver h] vw = Inr (V_AttachObserver h vw)"
  by (simp add: R_AttachObserver_def V_AttachObserver_def std_set_insert_idem)

text \<open>
  C5: detaching a handle that is not in the registered set changes nothing and is no
  error: the world after \<open>DetachObserver\<close> is the world before, registered set
  included. This holds in both namespaces.
\<close>

theorem DetachObserver_absent_noop:
  "(h \<notin> set (R_m_Observers (R_subject rw)) \<longrightarrow>
      R_DetachObserver h rw = rw \<and> R_apply (DetachObserver h) rw = Inr rw) \<and>
   (h \<notin> set (V_m_Observers (V_subject vw)) \<longrightarrow>
      V_DetachObserver h vw = vw \<and> V_apply (DetachObserver h) vw = Inr vw)"
  by (simp add: R_DetachObserver_def V_DetachObserver_def std_set_erase_def)

theorem DetachObserver_absent_noop_witness:
  "4 \<notin> set (R_m_Observers (R_subject (R_unit_test 1 2 3))) \<and>
   R_DetachObserver 4 (R_unit_test 1 2 3) = R_unit_test 1 2 3 \<and>
   R_apply (DetachObserver 4) (R_unit_test 1 2 3) = Inr (R_unit_test 1 2 3) \<and>
   4 \<notin> set (V_m_Observers (V_subject (V_unit_test 1 2 3 (\<lambda>x. 0)))) \<and>
   V_DetachObserver 4 (V_unit_test 1 2 3 (\<lambda>x. 0)) = V_unit_test 1 2 3 (\<lambda>x. 0) \<and>
   V_apply (DetachObserver 4) (V_unit_test 1 2 3 (\<lambda>x. 0)) = Inr (V_unit_test 1 2 3 (\<lambda>x. 0))"
proof -
  have r: "4 \<notin> set (R_m_Observers (R_subject (R_unit_test 1 2 3)))"
    by (simp add: unit_test_defs R_AttachObserver_def)
  have v: "4 \<notin> set (V_m_Observers (V_subject (V_unit_test 1 2 3 (\<lambda>x. 0))))"
    by (simp add: unit_test_defs V_AttachObserver_def)
  show ?thesis
    using r v DetachObserver_absent_noop [of 4 "R_unit_test 1 2 3" "V_unit_test 1 2 3 (\<lambda>x. 0)"]
    by blast
qed

text \<open>
  C10: \<open>AttachObserver\<close> and \<open>DetachObserver\<close> deliver no notification and touch
  nothing but the registered set: \<open>GetValueA()\<close>, \<open>GetValueB()\<close>, every observer object
  (in \<open>ValueSemantics\<close> also every variable a callable writes) and the log of
  \<open>OnNotification\<close> calls are as before the call. This holds in both namespaces.
\<close>

theorem registration_frame:
  "R_GetValueA (R_subject (R_AttachObserver h rw)) = R_GetValueA (R_subject rw) \<and>
   R_GetValueB (R_subject (R_AttachObserver h rw)) = R_GetValueB (R_subject rw) \<and>
   R_heap (R_AttachObserver h rw) = R_heap rw \<and>
   R_calls (R_AttachObserver h rw) = R_calls rw \<and>
   R_GetValueA (R_subject (R_DetachObserver h rw)) = R_GetValueA (R_subject rw) \<and>
   R_GetValueB (R_subject (R_DetachObserver h rw)) = R_GetValueB (R_subject rw) \<and>
   R_heap (R_DetachObserver h rw) = R_heap rw \<and>
   R_calls (R_DetachObserver h rw) = R_calls rw \<and>
   V_GetValueA (V_subject (V_AttachObserver h vw)) = V_GetValueA (V_subject vw) \<and>
   V_GetValueB (V_subject (V_AttachObserver h vw)) = V_GetValueB (V_subject vw) \<and>
   V_heap (V_AttachObserver h vw) = V_heap vw \<and>
   V_mem (V_AttachObserver h vw) = V_mem vw \<and>
   V_calls (V_AttachObserver h vw) = V_calls vw \<and>
   V_GetValueA (V_subject (V_DetachObserver h vw)) = V_GetValueA (V_subject vw) \<and>
   V_GetValueB (V_subject (V_DetachObserver h vw)) = V_GetValueB (V_subject vw) \<and>
   V_heap (V_DetachObserver h vw) = V_heap vw \<and>
   V_mem (V_DetachObserver h vw) = V_mem vw \<and>
   V_calls (V_DetachObserver h vw) = V_calls vw"
  by (simp add: R_AttachObserver_def R_DetachObserver_def V_AttachObserver_def
      V_DetachObserver_def R_GetValueA_def R_GetValueB_def V_GetValueA_def V_GetValueB_def)

section \<open>Setters\<close>





section \<open>Who receives a broadcast\<close>

lemma count_distinct: "distinct xs \<Longrightarrow> length (filter (\<lambda>x. x = h) xs) = (if h \<in> set xs then 1 else 0)"
  by (induction xs) auto

lemma invocations_broadcast:
  "distinct xs \<Longrightarrow>
   invocations h (calls @ map (\<lambda>p. (p, tag, a, b)) xs) =
     invocations h calls + (if h \<in> set xs then 1 else 0)"
  using count_distinct [of xs h]
  by (simp add: invocations_def filter_map comp_def)

lemma R_run_registration:
  "list_all is_registration ops \<Longrightarrow>
   \<exists>w'. R_run ops w = Inr w' \<and> R_heap w' = R_heap w \<and> R_calls w' = R_calls w \<and>
     (std_set_inv (R_m_Observers (R_subject w)) \<longrightarrow> std_set_inv (R_m_Observers (R_subject w'))) \<and>
     (\<forall>h. h \<in> set (R_m_Observers (R_subject w')) \<longleftrightarrow>
        net_attached h ops (h \<in> set (R_m_Observers (R_subject w))))"
proof (induction ops arbitrary: w)
  case Nil
  then show ?case by simp
next
  case (Cons op ops)
  then have rest: "list_all is_registration ops" by simp
  show ?case
  proof (cases op)
    case (AttachObserver p)
    from Cons.IH [OF rest, of "R_AttachObserver p w"] show ?thesis
      by (auto simp: AttachObserver R_AttachObserver_def set_std_set_insert std_set_inv_insert)
  next
    case (DetachObserver p)
    from Cons.IH [OF rest, of "R_DetachObserver p w"] show ?thesis
      by (auto simp: DetachObserver R_DetachObserver_def set_std_set_erase std_set_inv_erase)
  next
    case (SetValueA v)
    with Cons.prems show ?thesis by simp
  next
    case (SetValueB v)
    with Cons.prems show ?thesis by simp
  qed
qed

lemma V_run_registration:
  "list_all is_registration ops \<Longrightarrow>
   \<exists>w'. V_run ops w = Inr w' \<and> V_heap w' = V_heap w \<and> V_calls w' = V_calls w \<and> V_mem w' = V_mem w \<and>
     (std_set_inv (V_m_Observers (V_subject w)) \<longrightarrow> std_set_inv (V_m_Observers (V_subject w'))) \<and>
     (\<forall>h. h \<in> set (V_m_Observers (V_subject w')) \<longleftrightarrow>
        net_attached h ops (h \<in> set (V_m_Observers (V_subject w))))"
proof (induction ops arbitrary: w)
  case Nil
  then show ?case by simp
next
  case (Cons op ops)
  then have rest: "list_all is_registration ops" by simp
  show ?case
  proof (cases op)
    case (AttachObserver p)
    from Cons.IH [OF rest, of "V_AttachObserver p w"] show ?thesis
      by (auto simp: AttachObserver V_AttachObserver_def set_std_set_insert std_set_inv_insert)
  next
    case (DetachObserver p)
    from Cons.IH [OF rest, of "V_DetachObserver p w"] show ?thesis
      by (auto simp: DetachObserver V_DetachObserver_def set_std_set_erase std_set_inv_erase)
  next
    case (SetValueA v)
    with Cons.prems show ?thesis by simp
  next
    case (SetValueB v)
    with Cons.prems show ?thesis by simp
  qed
qed

lemma R_setter_dispatch:
  assumes "R_live w" and "std_set_inv (R_m_Observers (R_subject w))"
  shows "(\<exists>w'. R_SetValueA v w = Inr w' \<and>
            (\<forall>h. invocations h (R_calls w') = invocations h (R_calls w) +
               (if h \<in> set (R_m_Observers (R_subject w)) then 1 else 0)) \<and>
            (\<forall>h. R_heap w' h =
               (if h \<in> set (R_m_Observers (R_subject w))
                then map_option
                  (\<lambda>obj. R_OnNotification obj ((R_subject w)\<lparr>R_m_ValueA := v\<rparr>) ValueA)
                  (R_heap w h)
                else R_heap w h))) \<and>
         (\<exists>w'. R_SetValueB v w = Inr w' \<and>
            (\<forall>h. invocations h (R_calls w') = invocations h (R_calls w) +
               (if h \<in> set (R_m_Observers (R_subject w)) then 1 else 0)) \<and>
            (\<forall>h. R_heap w' h =
               (if h \<in> set (R_m_Observers (R_subject w))
                then map_option
                  (\<lambda>obj. R_OnNotification obj ((R_subject w)\<lparr>R_m_ValueB := v\<rparr>) ValueB)
                  (R_heap w h)
                else R_heap w h)))"
proof -
  have d: "distinct (R_m_Observers (R_subject w))"
    using assms(2) by (simp add: std_set_inv_def)
  have la: "R_live (w\<lparr>R_subject := (R_subject w)\<lparr>R_m_ValueA := v\<rparr>\<rparr>)"
    and lb: "R_live (w\<lparr>R_subject := (R_subject w)\<lparr>R_m_ValueB := v\<rparr>\<rparr>)"
    using assms(1) by (simp_all add: R_live_def)
  from R_SendNotification_live [OF la, of ValueA] obtain wa
    where a: "R_SendNotification ValueA (w\<lparr>R_subject := (R_subject w)\<lparr>R_m_ValueA := v\<rparr>\<rparr>) = Inr wa"
    by blast
  from R_SendNotification_live [OF lb, of ValueB] obtain wb
    where b: "R_SendNotification ValueB (w\<lparr>R_subject := (R_subject w)\<lparr>R_m_ValueB := v\<rparr>\<rparr>) = Inr wb"
    by blast
  show ?thesis
    using R_SendNotification_Inr [OF a] R_SendNotification_Inr [OF b] a b d
    by (simp add: R_SetValueA_def R_SetValueB_def invocations_broadcast)
qed

lemma V_setter_dispatch:
  assumes "V_live w" and "std_set_inv (V_m_Observers (V_subject w))"
  shows "(\<exists>w'. V_SetValueA v w = Inr w' \<and>
            (\<forall>h. invocations h (V_calls w') = invocations h (V_calls w) +
               (if h \<in> set (V_m_Observers (V_subject w)) then 1 else 0)) \<and>
            V_mem w' =
              fold (\<lambda>h mem. case V_heap w h of
                      None \<Rightarrow> mem
                    | Some obj \<Rightarrow>
                        V_OnNotification obj ((V_subject w)\<lparr>V_m_ValueA := v\<rparr>) ValueA mem)
                (V_m_Observers (V_subject w)) (V_mem w)) \<and>
         (\<exists>w'. V_SetValueB v w = Inr w' \<and>
            (\<forall>h. invocations h (V_calls w') = invocations h (V_calls w) +
               (if h \<in> set (V_m_Observers (V_subject w)) then 1 else 0)) \<and>
            V_mem w' =
              fold (\<lambda>h mem. case V_heap w h of
                      None \<Rightarrow> mem
                    | Some obj \<Rightarrow>
                        V_OnNotification obj ((V_subject w)\<lparr>V_m_ValueB := v\<rparr>) ValueB mem)
                (V_m_Observers (V_subject w)) (V_mem w))"
proof -
  have d: "distinct (V_m_Observers (V_subject w))"
    using assms(2) by (simp add: std_set_inv_def)
  have la: "V_live (w\<lparr>V_subject := (V_subject w)\<lparr>V_m_ValueA := v\<rparr>\<rparr>)"
    and lb: "V_live (w\<lparr>V_subject := (V_subject w)\<lparr>V_m_ValueB := v\<rparr>\<rparr>)"
    using assms(1) by (simp_all add: V_live_def)
  from V_SendNotification_live [OF la, of ValueA] obtain wa
    where a: "V_SendNotification ValueA (w\<lparr>V_subject := (V_subject w)\<lparr>V_m_ValueA := v\<rparr>\<rparr>) = Inr wa"
    by blast
  from V_SendNotification_live [OF lb, of ValueB] obtain wb
    where b: "V_SendNotification ValueB (w\<lparr>V_subject := (V_subject w)\<lparr>V_m_ValueB := v\<rparr>\<rparr>) = Inr wb"
    by blast
  show ?thesis
    using V_SendNotification_Inr [OF a] V_SendNotification_Inr [OF b]
      V_SendNotification_fold [OF a] V_SendNotification_fold [OF b] a b d
    by (simp add: V_SetValueA_def V_SetValueB_def invocations_broadcast cong: option.case_cong)
qed

text \<open>
  C3: from a subject whose registered set is a well-formed \<open>std::set\<close>, every sequence
  of \<open>AttachObserver\<close> and \<open>DetachObserver\<close> calls runs to its end and leaves
  registered, once each, exactly the handles whose net state is attached. When these
  are live, the broadcast of a following \<open>SetValueA\<close> or \<open>SetValueB\<close> invokes
  \<open>OnNotification\<close> exactly once on each of them and on no other handle: the log
  gains one call per net-attached handle and none for any other, and the call is
  carried out. In \<open>ReferenceSemantics\<close> the object behind each net-attached handle
  becomes what its \<open>OnNotification\<close> override makes of it and every other object is
  as before; in \<open>ValueSemantics\<close> the memory is the result of running the stored
  callable of each registered wrapper, in iteration order, on the updated subject.
\<close>

theorem broadcast_reaches_net_attached:
  "(std_set_inv (R_m_Observers (R_subject rw)) \<and> list_all is_registration ops \<longrightarrow>
      (\<exists>w'. R_run ops rw = Inr w' \<and>
         distinct (R_m_Observers (R_subject w')) \<and>
         (\<forall>h. h \<in> set (R_m_Observers (R_subject w')) \<longleftrightarrow>
            net_attached h ops (h \<in> set (R_m_Observers (R_subject rw)))) \<and>
         (R_live w' \<longrightarrow>
            (\<exists>w''. R_SetValueA v w' = Inr w'' \<and>
               (\<forall>h. invocations h (R_calls w'') = invocations h (R_calls w') +
                  (if net_attached h ops (h \<in> set (R_m_Observers (R_subject rw))) then 1 else 0)) \<and>
               (\<forall>h. R_heap w'' h =
                  (if net_attached h ops (h \<in> set (R_m_Observers (R_subject rw)))
                   then map_option
                     (\<lambda>obj. R_OnNotification obj ((R_subject w')\<lparr>R_m_ValueA := v\<rparr>) ValueA)
                     (R_heap w' h)
                   else R_heap w' h))) \<and>
            (\<exists>w''. R_SetValueB v w' = Inr w'' \<and>
               (\<forall>h. invocations h (R_calls w'') = invocations h (R_calls w') +
                  (if net_attached h ops (h \<in> set (R_m_Observers (R_subject rw))) then 1 else 0)) \<and>
               (\<forall>h. R_heap w'' h =
                  (if net_attached h ops (h \<in> set (R_m_Observers (R_subject rw)))
                   then map_option
                     (\<lambda>obj. R_OnNotification obj ((R_subject w')\<lparr>R_m_ValueB := v\<rparr>) ValueB)
                     (R_heap w' h)
                   else R_heap w' h)))))) \<and>
   (std_set_inv (V_m_Observers (V_subject vw)) \<and> list_all is_registration ops \<longrightarrow>
      (\<exists>w'. V_run ops vw = Inr w' \<and>
         distinct (V_m_Observers (V_subject w')) \<and>
         (\<forall>h. h \<in> set (V_m_Observers (V_subject w')) \<longleftrightarrow>
            net_attached h ops (h \<in> set (V_m_Observers (V_subject vw)))) \<and>
         (V_live w' \<longrightarrow>
            (\<exists>w''. V_SetValueA v w' = Inr w'' \<and>
               (\<forall>h. invocations h (V_calls w'') = invocations h (V_calls w') +
                  (if net_attached h ops (h \<in> set (V_m_Observers (V_subject vw))) then 1 else 0)) \<and>
               V_mem w'' =
                 fold (\<lambda>h mem. case V_heap w' h of
                         None \<Rightarrow> mem
                       | Some obj \<Rightarrow>
                           V_OnNotification obj ((V_subject w')\<lparr>V_m_ValueA := v\<rparr>) ValueA mem)
                   (V_m_Observers (V_subject w')) (V_mem w')) \<and>
            (\<exists>w''. V_SetValueB v w' = Inr w'' \<and>
               (\<forall>h. invocations h (V_calls w'') = invocations h (V_calls w') +
                  (if net_attached h ops (h \<in> set (V_m_Observers (V_subject vw))) then 1 else 0)) \<and>
               V_mem w'' =
                 fold (\<lambda>h mem. case V_heap w' h of
                         None \<Rightarrow> mem
                       | Some obj \<Rightarrow>
                           V_OnNotification obj ((V_subject w')\<lparr>V_m_ValueB := v\<rparr>) ValueB mem)
                   (V_m_Observers (V_subject w')) (V_mem w')))))"
proof (intro conjI impI)
  assume a: "std_set_inv (R_m_Observers (R_subject rw)) \<and> list_all is_registration ops"
  then obtain w' where r: "R_run ops rw = Inr w'"
    and i: "std_set_inv (R_m_Observers (R_subject w'))"
    and n: "\<forall>h. h \<in> set (R_m_Observers (R_subject w')) \<longleftrightarrow>
        net_attached h ops (h \<in> set (R_m_Observers (R_subject rw)))"
    using R_run_registration [of ops rw] by blast
  have d: "distinct (R_m_Observers (R_subject w'))"
    using i by (simp add: std_set_inv_def)
  have "R_live w' \<longrightarrow>
            (\<exists>w''. R_SetValueA v w' = Inr w'' \<and>
               (\<forall>h. invocations h (R_calls w'') = invocations h (R_calls w') +
                  (if net_attached h ops (h \<in> set (R_m_Observers (R_subject rw))) then 1 else 0)) \<and>
               (\<forall>h. R_heap w'' h =
                  (if net_attached h ops (h \<in> set (R_m_Observers (R_subject rw)))
                   then map_option
                     (\<lambda>obj. R_OnNotification obj ((R_subject w')\<lparr>R_m_ValueA := v\<rparr>) ValueA)
                     (R_heap w' h)
                   else R_heap w' h))) \<and>
            (\<exists>w''. R_SetValueB v w' = Inr w'' \<and>
               (\<forall>h. invocations h (R_calls w'') = invocations h (R_calls w') +
                  (if net_attached h ops (h \<in> set (R_m_Observers (R_subject rw))) then 1 else 0)) \<and>
               (\<forall>h. R_heap w'' h =
                  (if net_attached h ops (h \<in> set (R_m_Observers (R_subject rw)))
                   then map_option
                     (\<lambda>obj. R_OnNotification obj ((R_subject w')\<lparr>R_m_ValueB := v\<rparr>) ValueB)
                     (R_heap w' h)
                   else R_heap w' h)))"
    using R_setter_dispatch [OF _ i, of v] n by simp
  with r d n show "\<exists>w'. R_run ops rw = Inr w' \<and>
         distinct (R_m_Observers (R_subject w')) \<and>
         (\<forall>h. h \<in> set (R_m_Observers (R_subject w')) \<longleftrightarrow>
            net_attached h ops (h \<in> set (R_m_Observers (R_subject rw)))) \<and>
         (R_live w' \<longrightarrow>
            (\<exists>w''. R_SetValueA v w' = Inr w'' \<and>
               (\<forall>h. invocations h (R_calls w'') = invocations h (R_calls w') +
                  (if net_attached h ops (h \<in> set (R_m_Observers (R_subject rw))) then 1 else 0)) \<and>
               (\<forall>h. R_heap w'' h =
                  (if net_attached h ops (h \<in> set (R_m_Observers (R_subject rw)))
                   then map_option
                     (\<lambda>obj. R_OnNotification obj ((R_subject w')\<lparr>R_m_ValueA := v\<rparr>) ValueA)
                     (R_heap w' h)
                   else R_heap w' h))) \<and>
            (\<exists>w''. R_SetValueB v w' = Inr w'' \<and>
               (\<forall>h. invocations h (R_calls w'') = invocations h (R_calls w') +
                  (if net_attached h ops (h \<in> set (R_m_Observers (R_subject rw))) then 1 else 0)) \<and>
               (\<forall>h. R_heap w'' h =
                  (if net_attached h ops (h \<in> set (R_m_Observers (R_subject rw)))
                   then map_option
                     (\<lambda>obj. R_OnNotification obj ((R_subject w')\<lparr>R_m_ValueB := v\<rparr>) ValueB)
                     (R_heap w' h)
                   else R_heap w' h))))"
    by (intro exI [of _ w'] conjI)
next
  assume a: "std_set_inv (V_m_Observers (V_subject vw)) \<and> list_all is_registration ops"
  then obtain w' where r: "V_run ops vw = Inr w'"
    and i: "std_set_inv (V_m_Observers (V_subject w'))"
    and n: "\<forall>h. h \<in> set (V_m_Observers (V_subject w')) \<longleftrightarrow>
        net_attached h ops (h \<in> set (V_m_Observers (V_subject vw)))"
    using V_run_registration [of ops vw] by blast
  have d: "distinct (V_m_Observers (V_subject w'))"
    using i by (simp add: std_set_inv_def)
  have "V_live w' \<longrightarrow>
            (\<exists>w''. V_SetValueA v w' = Inr w'' \<and>
               (\<forall>h. invocations h (V_calls w'') = invocations h (V_calls w') +
                  (if net_attached h ops (h \<in> set (V_m_Observers (V_subject vw))) then 1 else 0)) \<and>
               V_mem w'' =
                 fold (\<lambda>h mem. case V_heap w' h of
                         None \<Rightarrow> mem
                       | Some obj \<Rightarrow>
                           V_OnNotification obj ((V_subject w')\<lparr>V_m_ValueA := v\<rparr>) ValueA mem)
                   (V_m_Observers (V_subject w')) (V_mem w')) \<and>
            (\<exists>w''. V_SetValueB v w' = Inr w'' \<and>
               (\<forall>h. invocations h (V_calls w'') = invocations h (V_calls w') +
                  (if net_attached h ops (h \<in> set (V_m_Observers (V_subject vw))) then 1 else 0)) \<and>
               V_mem w'' =
                 fold (\<lambda>h mem. case V_heap w' h of
                         None \<Rightarrow> mem
                       | Some obj \<Rightarrow>
                           V_OnNotification obj ((V_subject w')\<lparr>V_m_ValueB := v\<rparr>) ValueB mem)
                   (V_m_Observers (V_subject w')) (V_mem w'))"
    using V_setter_dispatch [OF _ i, of v] n by simp
  with r d n show "\<exists>w'. V_run ops vw = Inr w' \<and>
         distinct (V_m_Observers (V_subject w')) \<and>
         (\<forall>h. h \<in> set (V_m_Observers (V_subject w')) \<longleftrightarrow>
            net_attached h ops (h \<in> set (V_m_Observers (V_subject vw)))) \<and>
         (V_live w' \<longrightarrow>
            (\<exists>w''. V_SetValueA v w' = Inr w'' \<and>
               (\<forall>h. invocations h (V_calls w'') = invocations h (V_calls w') +
                  (if net_attached h ops (h \<in> set (V_m_Observers (V_subject vw))) then 1 else 0)) \<and>
               V_mem w'' =
                 fold (\<lambda>h mem. case V_heap w' h of
                         None \<Rightarrow> mem
                       | Some obj \<Rightarrow>
                           V_OnNotification obj ((V_subject w')\<lparr>V_m_ValueA := v\<rparr>) ValueA mem)
                   (V_m_Observers (V_subject w')) (V_mem w')) \<and>
            (\<exists>w''. V_SetValueB v w' = Inr w'' \<and>
               (\<forall>h. invocations h (V_calls w'') = invocations h (V_calls w') +
                  (if net_attached h ops (h \<in> set (V_m_Observers (V_subject vw))) then 1 else 0)) \<and>
               V_mem w'' =
                 fold (\<lambda>h mem. case V_heap w' h of
                         None \<Rightarrow> mem
                       | Some obj \<Rightarrow>
                           V_OnNotification obj ((V_subject w')\<lparr>V_m_ValueB := v\<rparr>) ValueB mem)
                   (V_m_Observers (V_subject w')) (V_mem w')))"
    by (intro exI [of _ w'] conjI)
qed


theorem broadcast_reaches_net_attached_witness:
  "std_set_inv (R_m_Observers (R_subject (R_unit_test 10 20 30))) \<and>
   std_set_inv (V_m_Observers (V_subject (V_unit_test 10 20 30 (\<lambda>x. 0)))) \<and>
   list_all is_registration [DetachObserver 30, AttachObserver 30, DetachObserver 20, DetachObserver 70] \<and>
   (\<exists>w'. R_run [DetachObserver 30, AttachObserver 30, DetachObserver 20, DetachObserver 70]
            (R_unit_test 10 20 30) = Inr w' \<and> R_live w' \<and>
      (\<exists>w''. R_SetValueA 9 w' = Inr w'' \<and>
         invocations 10 (R_calls w'') = 1 \<and> invocations 20 (R_calls w'') = 0 \<and>
         invocations 30 (R_calls w'') = 1 \<and> invocations 70 (R_calls w'') = 0 \<and>
         R_heap w'' 10 = Some (R_SubjectObserverA 9) \<and>
         R_heap w'' 20 = Some (R_SubjectObserverB 0) \<and>
         R_heap w'' 30 = Some (R_SubjectObserverB 0) \<and> R_heap w'' 70 = None)) \<and>
   (\<exists>w'. V_run [DetachObserver 30, AttachObserver 30, DetachObserver 20, DetachObserver 70]
            (V_unit_test 10 20 30 (\<lambda>x. 0)) = Inr w' \<and> V_live w' \<and>
      (\<exists>w''. V_SetValueB 9 w' = Inr w'' \<and>
         invocations 10 (V_calls w'') = 1 \<and> invocations 20 (V_calls w'') = 0 \<and>
         invocations 30 (V_calls w'') = 1 \<and> invocations 70 (V_calls w'') = 0 \<and>
         V_mem w'' (m_Value 10) = 0 \<and> V_mem w'' lambdaValueB = 0 \<and>
         V_mem w'' freeFuncValueB = 9))"
proof -
  let ?ops = "[DetachObserver 30, AttachObserver 30, DetachObserver 20, DetachObserver 70]"
  let ?rw = "R_unit_test 10 20 30"
  let ?vw = "V_unit_test 10 20 30 (\<lambda>x. 0)"
  have ri: "std_set_inv (R_m_Observers (R_subject ?rw))"
    by (simp add: unit_test_R_observers std_set_inv_def)
  have vi: "std_set_inv (V_m_Observers (V_subject ?vw))"
    by (simp add: unit_test_V_observers std_set_inv_def)
  have reg: "list_all is_registration ?ops"
    by simp
  from broadcast_reaches_net_attached [of ?rw ?ops 9 ?vw] ri vi reg
  obtain rw' vw' where
    r: "R_run ?ops ?rw = Inr rw'" and rc: "R_live rw' \<longrightarrow>
            (\<exists>w''. R_SetValueA 9 rw' = Inr w'' \<and>
               (\<forall>h. invocations h (R_calls w'') = invocations h (R_calls rw') +
                  (if net_attached h ?ops (h \<in> set (R_m_Observers (R_subject ?rw))) then 1 else 0)) \<and>
               (\<forall>h. R_heap w'' h =
                  (if net_attached h ?ops (h \<in> set (R_m_Observers (R_subject ?rw)))
                   then map_option
                     (\<lambda>obj. R_OnNotification obj ((R_subject rw')\<lparr>R_m_ValueA := 9\<rparr>) ValueA)
                     (R_heap rw' h)
                   else R_heap rw' h)))"
    and v: "V_run ?ops ?vw = Inr vw'" and vc: "V_live vw' \<longrightarrow>
            (\<exists>w''. V_SetValueB 9 vw' = Inr w'' \<and>
               (\<forall>h. invocations h (V_calls w'') = invocations h (V_calls vw') +
                  (if net_attached h ?ops (h \<in> set (V_m_Observers (V_subject ?vw))) then 1 else 0)) \<and>
               V_mem w'' =
                 fold (\<lambda>h mem. case V_heap vw' h of
                         None \<Rightarrow> mem
                       | Some obj \<Rightarrow>
                           V_OnNotification obj ((V_subject vw')\<lparr>V_m_ValueB := 9\<rparr>) ValueB mem)
                   (V_m_Observers (V_subject vw')) (V_mem vw'))"
    by blast
  have rl: "R_live rw'" and rcalls: "R_calls rw' = []" and rheap: "R_heap rw' = R_heap ?rw"
    using r by (auto simp: unit_test_defs R_live_def R_AttachObserver_def R_DetachObserver_def)
  have vl: "V_live vw'" and vcalls: "V_calls vw' = []" and vheap: "V_heap vw' = V_heap ?vw"
    and vobs: "V_m_Observers (V_subject vw') = [10, 30]"
    and vmem: "V_mem vw' = V_mem ?vw"
    using v by (auto simp: unit_test_defs V_live_def V_AttachObserver_def V_DetachObserver_def)
  have mem0: "V_mem ?vw = (\<lambda>x. 0)"
    by (auto simp: unit_test_defs V_AttachObserver_def)
  from rc rl obtain rw'' where r2: "R_SetValueA 9 rw' = Inr rw''"
    and rn: "\<forall>h. invocations h (R_calls rw'') = invocations h (R_calls rw') +
                  (if net_attached h ?ops (h \<in> set (R_m_Observers (R_subject ?rw))) then 1 else 0)"
    and rh: "\<forall>h. R_heap rw'' h =
                  (if net_attached h ?ops (h \<in> set (R_m_Observers (R_subject ?rw)))
                   then map_option
                     (\<lambda>obj. R_OnNotification obj ((R_subject rw')\<lparr>R_m_ValueA := 9\<rparr>) ValueA)
                     (R_heap rw' h)
                   else R_heap rw' h)"
    by blast
  from vc vl obtain vw'' where v2: "V_SetValueB 9 vw' = Inr vw''"
    and vn: "\<forall>h. invocations h (V_calls vw'') = invocations h (V_calls vw') +
                  (if net_attached h ?ops (h \<in> set (V_m_Observers (V_subject ?vw))) then 1 else 0)"
    and vm: "V_mem vw'' =
                 fold (\<lambda>h mem. case V_heap vw' h of
                         None \<Rightarrow> mem
                       | Some obj \<Rightarrow>
                           V_OnNotification obj ((V_subject vw')\<lparr>V_m_ValueB := 9\<rparr>) ValueB mem)
                   (V_m_Observers (V_subject vw')) (V_mem vw')"
    by blast
  have "invocations 10 (R_calls rw'') = 1 \<and> invocations 20 (R_calls rw'') = 0 \<and>
         invocations 30 (R_calls rw'') = 1 \<and> invocations 70 (R_calls rw'') = 0"
    using rn by (simp add: rcalls unit_test_R_observers invocations_def)
  moreover have "R_heap rw'' 10 = Some (R_SubjectObserverA 9) \<and>
         R_heap rw'' 20 = Some (R_SubjectObserverB 0) \<and>
         R_heap rw'' 30 = Some (R_SubjectObserverB 0) \<and> R_heap rw'' 70 = None"
    using rh by (simp add: rheap unit_test_R_heap unit_test_R_observers R_GetValueA_def)
  moreover have "invocations 10 (V_calls vw'') = 1 \<and> invocations 20 (V_calls vw'') = 0 \<and>
         invocations 30 (V_calls vw'') = 1 \<and> invocations 70 (V_calls vw'') = 0"
    using vn by (simp add: vcalls unit_test_V_observers invocations_def)
  moreover have "V_mem vw'' (m_Value 10) = 0 \<and> V_mem vw'' lambdaValueB = 0 \<and>
         V_mem vw'' freeFuncValueB = 9"
    unfolding vm vheap vobs vmem mem0 unit_test_V_heap
    by (simp add: V_OnNotification_def V_SubjectObserverA_def V_lambda_ValueA_def
        V_free_OnNotification_def V_GetValueB_def lambdaValueB_def)
  ultimately show ?thesis
    using ri vi reg r rl r2 v vl v2 by blast
qed


section \<open>Observers of the other tag\<close>

lemma R_OnNotification_other_tag:
  "R_acts_on obj \<noteq> tag \<Longrightarrow> R_OnNotification obj subject tag = obj"
  by (cases obj) auto

lemma V_SendNotification_mem:
  assumes "V_SendNotification tag w = Inr w'" and "V_caching acts_on cache w"
  shows "V_mem w' x =
     (if \<exists>h\<in>set (V_m_Observers (V_subject w)). acts_on h = tag \<and> cache h = x
      then (case tag of ValueA \<Rightarrow> V_m_ValueA (V_subject w) | ValueB \<Rightarrow> V_m_ValueB (V_subject w))
      else V_mem w x)"
  using assms V_for_each_mem [of "V_m_Observers (V_subject w)" tag w w' acts_on cache x]
  unfolding V_SendNotification_def V_caching_def by blast

lemma R_broadcast_frame:
  assumes "R_live w" and "t \<noteq> tag"
  shows "\<exists>w'. R_SendNotification tag w = Inr w' \<and>
     (\<forall>h obj. R_heap w h = Some obj \<and> R_acts_on obj = t \<longrightarrow> R_heap w' h = Some obj)"
proof -
  from R_SendNotification_live [OF assms(1), of tag] obtain w'
    where s: "R_SendNotification tag w = Inr w'" by blast
  show ?thesis
    using R_SendNotification_Inr [OF s] s assms(2)
    by (auto simp: R_OnNotification_other_tag)
qed

lemma V_broadcast_frame:
  assumes "V_live w" and "V_caching acts_on cache w" and "V_tags_separate acts_on cache w"
    and "t \<noteq> tag"
  shows "\<exists>w'. V_SendNotification tag w = Inr w' \<and> V_heap w' = V_heap w \<and>
     (\<forall>h. V_heap w h \<noteq> None \<and> acts_on h = t \<longrightarrow> V_mem w' (cache h) = V_mem w (cache h))"
proof -
  from V_SendNotification_live [OF assms(1), of tag] obtain w'
    where s: "V_SendNotification tag w = Inr w'" by blast
  have "V_mem w' (cache h) = V_mem w (cache h)" if h: "V_heap w h \<noteq> None" "acts_on h = t" for h
  proof -
    have "\<not> (\<exists>p\<in>set (V_m_Observers (V_subject w)). acts_on p = tag \<and> cache p = cache h)"
    proof
      assume "\<exists>p\<in>set (V_m_Observers (V_subject w)). acts_on p = tag \<and> cache p = cache h"
      then obtain p where p: "p \<in> set (V_m_Observers (V_subject w))" "acts_on p = tag" "cache p = cache h"
        by blast
      from p(1) assms(1) have "V_heap w p \<noteq> None"
        by (simp add: V_live_def list_all_iff)
      moreover have "acts_on p \<noteq> acts_on h"
        using h(2) p(2) assms(4) by simp
      ultimately have "cache p \<noteq> cache h"
        using h(1) assms(3) unfolding V_tags_separate_def by blast
      with p(3) show False by simp
    qed
    with V_SendNotification_mem [OF s assms(2), of "cache h"] show ?thesis
      by (simp only: if_False)
  qed
  then have fr: "\<forall>h. V_heap w h \<noteq> None \<and> acts_on h = t \<longrightarrow> V_mem w' (cache h) = V_mem w (cache h)"
    by simp
  have hp: "V_heap w' = V_heap w"
    using V_SendNotification_Inr [OF s] by simp
  show ?thesis
    using s hp fr by (intro exI [of _ w'] conjI)
qed

text \<open>
  C7: when every registered pointer is live, the broadcast of \<open>SetValueA(v)\<close> returns and
  leaves every observer that acts on \<open>ValueB\<close> with the cached value it had, and the
  broadcast of \<open>SetValueB(v)\<close> does so for every observer that acts on \<open>ValueA\<close>. In
  \<open>ReferenceSemantics\<close> these are the \<open>SubjectObserverB\<close> and \<open>SubjectObserverA\<close>
  objects. In \<open>ValueSemantics\<close> they are the wrappers of the header's closures, and the
  cached value is the captured variable; there no variable is the cache of observers of
  both tags.
\<close>

theorem broadcast_frame_other_tag:
  "(R_live rw \<longrightarrow>
      (\<exists>w'. R_SetValueA v rw = Inr w' \<and>
         (\<forall>h obj. R_heap rw h = Some obj \<and> R_acts_on obj = ValueB \<longrightarrow> R_heap w' h = Some obj)) \<and>
      (\<exists>w'. R_SetValueB v rw = Inr w' \<and>
         (\<forall>h obj. R_heap rw h = Some obj \<and> R_acts_on obj = ValueA \<longrightarrow> R_heap w' h = Some obj))) \<and>
   (V_live vw \<and> V_caching acts_on cache vw \<and> V_tags_separate acts_on cache vw \<longrightarrow>
      (\<exists>w'. V_SetValueA v vw = Inr w' \<and> V_heap w' = V_heap vw \<and>
         (\<forall>h. V_heap vw h \<noteq> None \<and> acts_on h = ValueB \<longrightarrow>
            V_mem w' (cache h) = V_mem vw (cache h))) \<and>
      (\<exists>w'. V_SetValueB v vw = Inr w' \<and> V_heap w' = V_heap vw \<and>
         (\<forall>h. V_heap vw h \<noteq> None \<and> acts_on h = ValueA \<longrightarrow>
            V_mem w' (cache h) = V_mem vw (cache h))))"
proof (intro conjI impI)
  assume l: "R_live rw"
  have la: "R_live (rw\<lparr>R_subject := (R_subject rw)\<lparr>R_m_ValueA := v\<rparr>\<rparr>)"
    and lb: "R_live (rw\<lparr>R_subject := (R_subject rw)\<lparr>R_m_ValueB := v\<rparr>\<rparr>)"
    using l by (simp_all add: R_live_def)
  show "\<exists>w'. R_SetValueA v rw = Inr w' \<and>
         (\<forall>h obj. R_heap rw h = Some obj \<and> R_acts_on obj = ValueB \<longrightarrow> R_heap w' h = Some obj)"
    using R_broadcast_frame [OF la, of ValueB ValueA] by (simp add: R_SetValueA_def)
  show "\<exists>w'. R_SetValueB v rw = Inr w' \<and>
         (\<forall>h obj. R_heap rw h = Some obj \<and> R_acts_on obj = ValueA \<longrightarrow> R_heap w' h = Some obj)"
    using R_broadcast_frame [OF lb, of ValueA ValueB] by (simp add: R_SetValueB_def)
next
  assume a: "V_live vw \<and> V_caching acts_on cache vw \<and> V_tags_separate acts_on cache vw"
  have la: "V_live (vw\<lparr>V_subject := (V_subject vw)\<lparr>V_m_ValueA := v\<rparr>\<rparr>)"
    and lb: "V_live (vw\<lparr>V_subject := (V_subject vw)\<lparr>V_m_ValueB := v\<rparr>\<rparr>)"
    and ca: "V_caching acts_on cache (vw\<lparr>V_subject := (V_subject vw)\<lparr>V_m_ValueA := v\<rparr>\<rparr>)"
    and cb: "V_caching acts_on cache (vw\<lparr>V_subject := (V_subject vw)\<lparr>V_m_ValueB := v\<rparr>\<rparr>)"
    and sa: "V_tags_separate acts_on cache (vw\<lparr>V_subject := (V_subject vw)\<lparr>V_m_ValueA := v\<rparr>\<rparr>)"
    and sb: "V_tags_separate acts_on cache (vw\<lparr>V_subject := (V_subject vw)\<lparr>V_m_ValueB := v\<rparr>\<rparr>)"
    using a by (simp_all add: V_live_def V_caching_def V_tags_separate_def)
  show "\<exists>w'. V_SetValueA v vw = Inr w' \<and> V_heap w' = V_heap vw \<and>
         (\<forall>h. V_heap vw h \<noteq> None \<and> acts_on h = ValueB \<longrightarrow>
            V_mem w' (cache h) = V_mem vw (cache h))"
    using V_broadcast_frame [OF la ca sa, of ValueB ValueA] by (simp add: V_SetValueA_def)
  show "\<exists>w'. V_SetValueB v vw = Inr w' \<and> V_heap w' = V_heap vw \<and>
         (\<forall>h. V_heap vw h \<noteq> None \<and> acts_on h = ValueA \<longrightarrow>
            V_mem w' (cache h) = V_mem vw (cache h))"
    using V_broadcast_frame [OF lb cb sb, of ValueA ValueB] by (simp add: V_SetValueB_def)
qed

theorem broadcast_frame_other_tag_witness:
  "R_live (R_unit_test 10 20 30) \<and>
   V_live (V_unit_test 10 20 30 (\<lambda>x. 0)) \<and>
   V_caching (unit_test_acts_on 10) (V_unit_test_cache 10 20 30) (V_unit_test 10 20 30 (\<lambda>x. 0)) \<and>
   V_tags_separate (unit_test_acts_on 10) (V_unit_test_cache 10 20 30) (V_unit_test 10 20 30 (\<lambda>x. 0)) \<and>
   (\<exists>w'. R_SetValueA 5 (R_unit_test 10 20 30) = Inr w' \<and>
      R_heap w' 20 = Some (R_SubjectObserverB 0) \<and> R_heap w' 30 = Some (R_SubjectObserverB 0)) \<and>
   (\<exists>w'. R_SetValueB 5 (R_unit_test 10 20 30) = Inr w' \<and>
      R_heap w' 10 = Some (R_SubjectObserverA 0)) \<and>
   (\<exists>w'. V_SetValueA 5 (V_unit_test 10 20 30 (\<lambda>x. 0)) = Inr w' \<and>
      V_mem w' lambdaValueB = 0 \<and> V_mem w' freeFuncValueB = 0) \<and>
   (\<exists>w'. V_SetValueB 5 (V_unit_test 10 20 30 (\<lambda>x. 0)) = Inr w' \<and>
      V_mem w' (m_Value 10) = 0)"
proof -
  let ?rw = "R_unit_test 10 20 30"
  let ?vw = "V_unit_test 10 20 30 (\<lambda>x. 0)"
  note c = unit_test_V_caching [of "\<lambda>x. 0"] and s = unit_test_V_tags_separate [of "\<lambda>x. 0"]
  note t = broadcast_frame_other_tag [of ?rw 5 ?vw "unit_test_acts_on 10" "V_unit_test_cache 10 20 30"]
  from t unit_test_R_live obtain ra rb where
    ra: "R_SetValueA 5 ?rw = Inr ra"
      "\<forall>h obj. R_heap ?rw h = Some obj \<and> R_acts_on obj = ValueB \<longrightarrow> R_heap ra h = Some obj"
    and rb: "R_SetValueB 5 ?rw = Inr rb"
      "\<forall>h obj. R_heap ?rw h = Some obj \<and> R_acts_on obj = ValueA \<longrightarrow> R_heap rb h = Some obj"
    by blast
  from t unit_test_V_live c s obtain va vb where
    va: "V_SetValueA 5 ?vw = Inr va"
      "\<forall>h. V_heap ?vw h \<noteq> None \<and> unit_test_acts_on 10 h = ValueB \<longrightarrow>
         V_mem va (V_unit_test_cache 10 20 30 h) = V_mem ?vw (V_unit_test_cache 10 20 30 h)"
    and vb: "V_SetValueB 5 ?vw = Inr vb"
      "\<forall>h. V_heap ?vw h \<noteq> None \<and> unit_test_acts_on 10 h = ValueA \<longrightarrow>
         V_mem vb (V_unit_test_cache 10 20 30 h) = V_mem ?vw (V_unit_test_cache 10 20 30 h)"
    by blast
  have mem: "V_mem ?vw = (\<lambda>x. 0)"
    by (auto simp: unit_test_defs V_AttachObserver_def)
  have "R_heap ra 20 = Some (R_SubjectObserverB 0)" "R_heap ra 30 = Some (R_SubjectObserverB 0)"
    using ra(2) by (simp_all add: unit_test_R_heap)
  moreover have "R_heap rb 10 = Some (R_SubjectObserverA 0)"
    using rb(2) by (simp add: unit_test_R_heap)
  moreover have "V_mem va lambdaValueB = 0"
    using va(2) [rule_format, of 20]
    by (simp add: unit_test_V_heap unit_test_acts_on_def V_unit_test_cache_def mem)
  moreover have "V_mem va freeFuncValueB = 0"
    using va(2) [rule_format, of 30]
    by (simp add: unit_test_V_heap unit_test_acts_on_def V_unit_test_cache_def mem)
  moreover have "V_mem vb (m_Value 10) = 0"
    using vb(2) [rule_format, of 10]
    by (simp add: unit_test_V_heap unit_test_acts_on_def V_unit_test_cache_def mem)
  ultimately show ?thesis
    using unit_test_R_live unit_test_V_live c s ra(1) rb(1) va(1) vb(1) by blast
qed

section \<open>Detached observers\<close>

lemma R_apply_detached:
  assumes "R_apply op w = Inr w'" and "h \<notin> set (R_m_Observers (R_subject w))"
    and "op \<noteq> AttachObserver h"
  shows "h \<notin> set (R_m_Observers (R_subject w')) \<and> R_heap w' h = R_heap w h"
proof (cases op)
  case (AttachObserver p)
  with assms show ?thesis
    by (auto simp: R_AttachObserver_def set_std_set_insert)
next
  case (DetachObserver p)
  with assms show ?thesis
    by (auto simp: R_DetachObserver_def set_std_set_erase)
next
  case (SetValueA v)
  with assms(1) have "R_SendNotification ValueA (w\<lparr>R_subject := (R_subject w)\<lparr>R_m_ValueA := v\<rparr>\<rparr>) = Inr w'"
    by (simp add: R_SetValueA_def)
  from R_SendNotification_Inr [OF this] assms(2) show ?thesis by simp
next
  case (SetValueB v)
  with assms(1) have "R_SendNotification ValueB (w\<lparr>R_subject := (R_subject w)\<lparr>R_m_ValueB := v\<rparr>\<rparr>) = Inr w'"
    by (simp add: R_SetValueB_def)
  from R_SendNotification_Inr [OF this] assms(2) show ?thesis by simp
qed

lemma R_run_detached:
  "R_run ops w = Inr w' \<Longrightarrow> h \<notin> set (R_m_Observers (R_subject w)) \<Longrightarrow>
   AttachObserver h \<notin> set ops \<Longrightarrow> R_heap w' h = R_heap w h"
proof (induction ops arbitrary: w)
  case Nil
  then show ?case by simp
next
  case (Cons op ops)
  from Cons.prems(1) obtain w1 where a: "R_apply op w = Inr w1" and r: "R_run ops w1 = Inr w'"
    by (auto split: sum.splits)
  from Cons.prems(3) have ne: "op \<noteq> AttachObserver h" and rest: "AttachObserver h \<notin> set ops"
    by auto
  from R_apply_detached [OF a Cons.prems(2) ne] Cons.IH [OF r _ rest] show ?case
    by simp
qed

lemma V_apply_detached:
  assumes "V_apply op w = Inr w'" and "h \<notin> set (V_m_Observers (V_subject w))"
    and "op \<noteq> AttachObserver h"
    and "V_caching acts_on cache w" and "V_own_variable cache w h"
  shows "h \<notin> set (V_m_Observers (V_subject w')) \<and> V_heap w' = V_heap w \<and>
    V_mem w' (cache h) = V_mem w (cache h)"
proof -
  have send: "h \<notin> set (V_m_Observers (V_subject w1)) \<Longrightarrow> V_heap w1 = V_heap w \<Longrightarrow> 
     V_SendNotification tag w1 = Inr w' \<Longrightarrow> V_mem w1 = V_mem w \<Longrightarrow>
     h \<notin> set (V_m_Observers (V_subject w')) \<and> V_heap w' = V_heap w \<and>
     V_mem w' (cache h) = V_mem w (cache h)" for w1 tag
  proof -
    assume n: "h \<notin> set (V_m_Observers (V_subject w1))" and hp: "V_heap w1 = V_heap w"
      and s: "V_SendNotification tag w1 = Inr w'" and m: "V_mem w1 = V_mem w"
    note f = V_SendNotification_Inr [OF s]
    have c1: "V_caching acts_on cache w1"
      using assms(4) hp by (simp add: V_caching_def)
    have "\<not> (\<exists>p\<in>set (V_m_Observers (V_subject w1)). acts_on p = tag \<and> cache p = cache h)"
    proof
      assume "\<exists>p\<in>set (V_m_Observers (V_subject w1)). acts_on p = tag \<and> cache p = cache h"
      then obtain p where p: "p \<in> set (V_m_Observers (V_subject w1))" "cache p = cache h"
        by blast
      with n have "p \<noteq> h" by auto
      moreover from p(1) f have "V_heap w p \<noteq> None"
        by (simp add: V_live_def list_all_iff hp)
      ultimately have "cache p \<noteq> cache h"
        using assms(5) unfolding V_own_variable_def by blast
      with p(2) show False by simp
    qed
    with V_SendNotification_mem [OF s c1, of "cache h"]
    have "V_mem w' (cache h) = V_mem w1 (cache h)"
      by (simp only: if_False)
    then show ?thesis
      using f n hp m by simp
  qed
  show ?thesis
  proof (cases op)
    case (AttachObserver p)
    with assms show ?thesis
      by (auto simp: V_AttachObserver_def set_std_set_insert)
  next
    case (DetachObserver p)
    with assms show ?thesis
      by (auto simp: V_DetachObserver_def set_std_set_erase)
  next
    case (SetValueA v)
    with assms(1) have "V_SendNotification ValueA (w\<lparr>V_subject := (V_subject w)\<lparr>V_m_ValueA := v\<rparr>\<rparr>) = Inr w'"
      by (simp add: V_SetValueA_def)
    from send [OF _ _ this] assms(2) show ?thesis by simp
  next
    case (SetValueB v)
    with assms(1) have "V_SendNotification ValueB (w\<lparr>V_subject := (V_subject w)\<lparr>V_m_ValueB := v\<rparr>\<rparr>) = Inr w'"
      by (simp add: V_SetValueB_def)
    from send [OF _ _ this] assms(2) show ?thesis by simp
  qed
qed

lemma V_run_detached:
  "V_run ops w = Inr w' \<Longrightarrow> h \<notin> set (V_m_Observers (V_subject w)) \<Longrightarrow>
   AttachObserver h \<notin> set ops \<Longrightarrow> V_caching acts_on cache w \<Longrightarrow> V_own_variable cache w h \<Longrightarrow>
   V_heap w' = V_heap w \<and> V_mem w' (cache h) = V_mem w (cache h)"
proof (induction ops arbitrary: w)
  case Nil
  then show ?case by simp
next
  case (Cons op ops)
  from Cons.prems(1) obtain w1 where a: "V_apply op w = Inr w1" and r: "V_run ops w1 = Inr w'"
    by (auto split: sum.splits)
  from Cons.prems(3) have ne: "op \<noteq> AttachObserver h" and rest: "AttachObserver h \<notin> set ops"
    by auto
  note st = V_apply_detached [OF a Cons.prems(2) ne Cons.prems(4) Cons.prems(5)]
  have c1: "V_caching acts_on cache w1" and o1: "V_own_variable cache w1 h"
    using st Cons.prems(4,5) by (simp_all add: V_caching_def V_own_variable_def)
  from Cons.IH [OF r _ rest c1 o1] st show ?case
    by simp
qed

lemma invocations_not_registered:
  "h \<notin> set xs \<Longrightarrow> invocations h (calls @ map (\<lambda>p. (p, tag, a, b)) xs) = invocations h calls"
  by (induction xs arbitrary: calls) (auto simp: invocations_def)

lemma R_apply_not_invoked:
  assumes "R_apply op w = Inr w'" and "h \<notin> set (R_m_Observers (R_subject w))"
    and "op \<noteq> AttachObserver h"
  shows "h \<notin> set (R_m_Observers (R_subject w')) \<and>
    invocations h (R_calls w') = invocations h (R_calls w)"
proof (cases op)
  case (AttachObserver p)
  with assms show ?thesis
    by (auto simp: R_AttachObserver_def set_std_set_insert)
next
  case (DetachObserver p)
  with assms show ?thesis
    by (auto simp: R_DetachObserver_def set_std_set_erase)
next
  case (SetValueA v)
  with assms(1) have "R_SendNotification ValueA (w\<lparr>R_subject := (R_subject w)\<lparr>R_m_ValueA := v\<rparr>\<rparr>) = Inr w'"
    by (simp add: R_SetValueA_def)
  from R_SendNotification_Inr [OF this] assms(2) show ?thesis
    by (simp add: invocations_not_registered)
next
  case (SetValueB v)
  with assms(1) have "R_SendNotification ValueB (w\<lparr>R_subject := (R_subject w)\<lparr>R_m_ValueB := v\<rparr>\<rparr>) = Inr w'"
    by (simp add: R_SetValueB_def)
  from R_SendNotification_Inr [OF this] assms(2) show ?thesis
    by (simp add: invocations_not_registered)
qed

lemma R_run_not_invoked:
  "R_run ops w = Inr w' \<Longrightarrow> h \<notin> set (R_m_Observers (R_subject w)) \<Longrightarrow>
   AttachObserver h \<notin> set ops \<Longrightarrow> invocations h (R_calls w') = invocations h (R_calls w)"
proof (induction ops arbitrary: w)
  case Nil
  then show ?case by simp
next
  case (Cons op ops)
  from Cons.prems(1) obtain w1 where a: "R_apply op w = Inr w1" and r: "R_run ops w1 = Inr w'"
    by (auto split: sum.splits)
  from Cons.prems(3) have ne: "op \<noteq> AttachObserver h" and rest: "AttachObserver h \<notin> set ops"
    by auto
  from R_apply_not_invoked [OF a Cons.prems(2) ne] Cons.IH [OF r _ rest] show ?case
    by simp
qed

lemma V_apply_not_invoked:
  assumes "V_apply op w = Inr w'" and "h \<notin> set (V_m_Observers (V_subject w))"
    and "op \<noteq> AttachObserver h"
  shows "h \<notin> set (V_m_Observers (V_subject w')) \<and>
    invocations h (V_calls w') = invocations h (V_calls w)"
proof (cases op)
  case (AttachObserver p)
  with assms show ?thesis
    by (auto simp: V_AttachObserver_def set_std_set_insert)
next
  case (DetachObserver p)
  with assms show ?thesis
    by (auto simp: V_DetachObserver_def set_std_set_erase)
next
  case (SetValueA v)
  with assms(1) have "V_SendNotification ValueA (w\<lparr>V_subject := (V_subject w)\<lparr>V_m_ValueA := v\<rparr>\<rparr>) = Inr w'"
    by (simp add: V_SetValueA_def)
  from V_SendNotification_Inr [OF this] assms(2) show ?thesis
    by (simp add: invocations_not_registered)
next
  case (SetValueB v)
  with assms(1) have "V_SendNotification ValueB (w\<lparr>V_subject := (V_subject w)\<lparr>V_m_ValueB := v\<rparr>\<rparr>) = Inr w'"
    by (simp add: V_SetValueB_def)
  from V_SendNotification_Inr [OF this] assms(2) show ?thesis
    by (simp add: invocations_not_registered)
qed

lemma V_run_not_invoked:
  "V_run ops w = Inr w' \<Longrightarrow> h \<notin> set (V_m_Observers (V_subject w)) \<Longrightarrow>
   AttachObserver h \<notin> set ops \<Longrightarrow> invocations h (V_calls w') = invocations h (V_calls w)"
proof (induction ops arbitrary: w)
  case Nil
  then show ?case by simp
next
  case (Cons op ops)
  from Cons.prems(1) obtain w1 where a: "V_apply op w = Inr w1" and r: "V_run ops w1 = Inr w'"
    by (auto split: sum.splits)
  from Cons.prems(3) have ne: "op \<noteq> AttachObserver h" and rest: "AttachObserver h \<notin> set ops"
    by auto
  from V_apply_not_invoked [OF a Cons.prems(2) ne] Cons.IH [OF r _ rest] show ?case
    by simp
qed

text \<open>
  C8, amended: after \<open>DetachObserver(h)\<close>, whatever calls follow short of attaching \<open>h\<close>
  again, \<open>OnNotification\<close> is not invoked on \<open>h\<close>, in both namespaces. In
  \<open>ReferenceSemantics\<close> the observer at \<open>h\<close> therefore keeps its \<open>m_Value\<close>, also under
  broadcasts of the tag it acts on. In \<open>ValueSemantics\<close> the cached value is the variable
  the observer's closure captured, and it is kept when no other observer writes that
  variable.
\<close>

theorem detached_observer_retains_value:
  "(R_run (DetachObserver h # ops) rw = Inr rw' \<and> AttachObserver h \<notin> set ops \<longrightarrow>
      invocations h (R_calls rw') = invocations h (R_calls rw) \<and>
      R_heap rw' h = R_heap rw h \<and> R_cached rw' h = R_cached rw h) \<and>
   (V_run (DetachObserver h # ops) vw = Inr vw' \<and> AttachObserver h \<notin> set ops \<longrightarrow>
      invocations h (V_calls vw') = invocations h (V_calls vw) \<and>
      (V_caching acts_on cache vw \<and> V_own_variable cache vw h \<longrightarrow>
         V_heap vw' h = V_heap vw h \<and> V_cached cache vw' h = V_cached cache vw h))"
proof (intro conjI impI)
  assume a: "R_run (DetachObserver h # ops) rw = Inr rw' \<and> AttachObserver h \<notin> set ops"
  then have r: "R_run ops (R_DetachObserver h rw) = Inr rw'"
    by simp
  have d: "h \<notin> set (R_m_Observers (R_subject (R_DetachObserver h rw)))"
    by (simp add: R_DetachObserver_def set_std_set_erase)
  from R_run_not_invoked [OF r d] a
  show "invocations h (R_calls rw') = invocations h (R_calls rw)"
    by (simp add: R_DetachObserver_def)
  from R_run_detached [OF r d] a show "R_heap rw' h = R_heap rw h"
    by (simp add: R_DetachObserver_def)
  then show "R_cached rw' h = R_cached rw h"
    by (simp add: R_cached_def)
next
  assume a: "V_run (DetachObserver h # ops) vw = Inr vw' \<and> AttachObserver h \<notin> set ops"
  then have r: "V_run ops (V_DetachObserver h vw) = Inr vw'"
    by simp
  have d: "h \<notin> set (V_m_Observers (V_subject (V_DetachObserver h vw)))"
    by (simp add: V_DetachObserver_def set_std_set_erase)
  from V_run_not_invoked [OF r d] a
  show "invocations h (V_calls vw') = invocations h (V_calls vw)"
    by (simp add: V_DetachObserver_def)
  assume b: "V_caching acts_on cache vw \<and> V_own_variable cache vw h"
  have c: "V_caching acts_on cache (V_DetachObserver h vw)"
    and o: "V_own_variable cache (V_DetachObserver h vw) h"
    using b by (simp_all add: V_DetachObserver_def V_caching_def V_own_variable_def)
  from V_run_detached [OF r d _ c o] a
  have k: "V_heap vw' = V_heap vw \<and> V_mem vw' (cache h) = V_mem vw (cache h)"
    by (simp add: V_DetachObserver_def)
  then show "V_heap vw' h = V_heap vw h"
    by simp
  from k show "V_cached cache vw' h = V_cached cache vw h"
    by (simp add: V_cached_def)
qed

theorem detached_observer_retains_value_witness:
  "(\<exists>rw'. R_run [DetachObserver 30, SetValueB 4, AttachObserver 70, DetachObserver 70, SetValueB 6]
       (R_unit_test 10 20 30) = Inr rw' \<and>
      AttachObserver 30 \<notin> set [SetValueB 4, AttachObserver 70, DetachObserver 70, SetValueB 6] \<and>
      invocations 30 (R_calls rw') = 0 \<and>
      R_cached rw' 30 = Some 0 \<and> R_cached rw' 20 = Some 6) \<and>
   (\<exists>vw'. V_run [DetachObserver 30, SetValueB 4, AttachObserver 70, DetachObserver 70, SetValueB 6]
       (V_unit_test 10 20 30 (\<lambda>x. 0)) = Inr vw' \<and>
      V_caching (unit_test_acts_on 10) (V_unit_test_cache 10 20 30) (V_unit_test 10 20 30 (\<lambda>x. 0)) \<and>
      V_own_variable (V_unit_test_cache 10 20 30) (V_unit_test 10 20 30 (\<lambda>x. 0)) 30 \<and>
      invocations 30 (V_calls vw') = 0 \<and>
      V_cached (V_unit_test_cache 10 20 30) vw' 30 = Some 0 \<and>
      V_cached (V_unit_test_cache 10 20 30) vw' 20 = Some 6)"
proof -
  let ?ops = "[SetValueB 4, AttachObserver 70, DetachObserver 70, SetValueB 6]"
  let ?rw = "R_unit_test 10 20 30"
  let ?vw = "V_unit_test 10 20 30 (\<lambda>x. 0)"
  let ?cache = "V_unit_test_cache 10 20 30"
  have n: "AttachObserver 30 \<notin> set ?ops"
    by simp
  have "\<exists>rw'. R_run (DetachObserver 30 # ?ops) ?rw = Inr rw' \<and> R_cached rw' 20 = Some 6"
    by (simp add: unit_test_defs R_defs R_cached_def)
  then obtain rw' where r: "R_run (DetachObserver 30 # ?ops) ?rw = Inr rw'"
    and r20: "R_cached rw' 20 = Some 6"
    by blast
  have "\<exists>vw'. V_run (DetachObserver 30 # ?ops) ?vw = Inr vw' \<and> V_cached ?cache vw' 20 = Some 6"
    by (simp add: unit_test_defs V_defs V_cached_def)
  then obtain vw' where v: "V_run (DetachObserver 30 # ?ops) ?vw = Inr vw'"
    and v20: "V_cached ?cache vw' 20 = Some 6"
    by blast
  note c = unit_test_V_caching [of "\<lambda>x. 0"] and o = unit_test_V_own_variable [of "\<lambda>x. 0"]
  from detached_observer_retains_value [of 30 ?ops ?rw rw' ?vw vw' "unit_test_acts_on 10" ?cache] r v n c o
  have "R_cached rw' 30 = R_cached ?rw 30" "V_cached ?cache vw' 30 = V_cached ?cache ?vw 30"
    "invocations 30 (R_calls rw') = invocations 30 (R_calls ?rw)"
    "invocations 30 (V_calls vw') = invocations 30 (V_calls ?vw)"
    by blast+
  moreover have "R_cached ?rw 30 = Some 0"
    by (simp add: R_cached_def unit_test_R_heap)
  moreover have "V_cached ?cache ?vw 30 = Some 0"
    by (simp add: V_cached_def unit_test_V_heap unit_test_defs V_AttachObserver_def)
  moreover have "invocations 30 (R_calls ?rw) = 0" "invocations 30 (V_calls ?vw) = 0"
    by (simp_all add: invocations_def unit_test_defs R_AttachObserver_def V_AttachObserver_def)
  ultimately show ?thesis
    using r v n c o r20 v20 by simp
qed


text \<open>
  C8 as stated, for every detached observer, fails in \<open>ValueSemantics\<close> where wrappers
  share a variable: of two wrappers of the free function, the detached one reads 0
  after the detach and 6 after the following \<open>SetValueB(6)\<close>, which the wrapper still
  attached wrote to \<open>freeFuncValueB\<close>.
\<close>

theorem detached_observer_shared_variable_counterexample:
  "V_cached free_function_cache V_two_free_wrappers 30 = Some 0 \<and>
   V_trace free_function_cache [30] [DetachObserver 30, SetValueB 6] V_two_free_wrappers =
     [Inr (0, 0, [Some 0]), Inr (0, 6, [Some 6])]"
  by (simp add: V_two_free_wrappers_def free_function_cache_def V_construct_def
      V_SubjectSystem_new_def V_free_OnNotification_def V_defs V_observe_def V_cached_def
      std_set_insert_def std_set_erase_def)

section \<open>The two namespaces agree\<close>

lemma R_OnNotification_acts_on [simp]:
  "R_acts_on (R_OnNotification obj subject tag) = R_acts_on obj"
  by (cases obj) auto

lemma R_OnNotification_GetValue:
  "R_GetValue (R_OnNotification obj subject tag) =
     (if R_acts_on obj = tag
      then (case tag of ValueA \<Rightarrow> R_m_ValueA subject | ValueB \<Rightarrow> R_m_ValueB subject)
      else R_GetValue obj)"
  by (cases obj; cases tag) (auto simp: R_GetValueA_def R_GetValueB_def)

lemma corresponding_live: "corresponding cache rw vw \<Longrightarrow> R_live rw \<longleftrightarrow> V_live vw"
proof -
  assume c: "corresponding cache rw vw"
  then have "dom (R_heap rw) = dom (V_heap vw)"
    by (simp add: corresponding_def)
  then have "R_heap rw h \<noteq> None \<longleftrightarrow> V_heap vw h \<noteq> None" for h
    by (auto simp: dom_def)
  then show ?thesis
    using c by (simp add: R_live_def V_live_def corresponding_def)
qed

lemma corresponding_SendNotification:
  assumes c: "corresponding cache rw vw"
  shows "rel_sum (=) (corresponding cache) (R_SendNotification tag rw) (V_SendNotification tag vw)"
proof (cases "R_live rw")
  case False
  then have nv: "\<not> V_live vw"
    using corresponding_live [OF c] by simp
  have "R_SendNotification tag rw = Inl DanglingObserver"
    using False by (rule R_SendNotification_dangling)
  moreover have "V_SendNotification tag vw = Inl DanglingObserver"
    using nv by (rule V_SendNotification_dangling)
  ultimately show ?thesis
    by simp
next
  case True
  then have vl: "V_live vw"
    using corresponding_live [OF c] by simp
  from R_SendNotification_live [OF True, of tag] obtain rw'
    where r: "R_SendNotification tag rw = Inr rw'" by blast
  from V_SendNotification_live [OF vl, of tag] obtain vw'
    where v: "V_SendNotification tag vw = Inr vw'" by blast
  note rf = R_SendNotification_Inr [OF r] and vf = V_SendNotification_Inr [OF v]
  let ?xs = "R_m_Observers (R_subject rw)"
  let ?acts = "\<lambda>h. R_acts_on (the (R_heap rw h))"
  have xs: "V_m_Observers (V_subject vw) = ?xs"
    and va: "V_m_ValueA (V_subject vw) = R_m_ValueA (R_subject rw)"
    and vb: "V_m_ValueB (V_subject vw) = R_m_ValueB (R_subject rw)"
    and inj: "inj_on cache (dom (R_heap rw))"
    and doms: "dom (R_heap rw) = dom (V_heap vw)"
    using c by (auto simp: corresponding_def)
  have rel: "V_m_OnNotification vobj = V_closure (R_acts_on robj) (cache h) \<and>
      V_mem vw (cache h) = R_GetValue robj"
    if "R_heap rw h = Some robj" "V_heap vw h = Some vobj" for h robj vobj
  proof -
    from c have "\<forall>h robj vobj. R_heap rw h = Some robj \<and> V_heap vw h = Some vobj \<longrightarrow>
         V_m_OnNotification vobj = V_closure (R_acts_on robj) (cache h) \<and>
         V_mem vw (cache h) = R_GetValue robj"
      by (simp add: corresponding_def)
    with that show ?thesis
      by blast
  qed
  have caching: "V_caching ?acts cache vw"
    unfolding V_caching_def
  proof (intro allI impI)
    fix h obj
    assume o: "V_heap vw h = Some obj"
    then have "h \<in> dom (R_heap rw)"
      using doms by auto
    then obtain robj where "R_heap rw h = Some robj"
      by auto
    with rel [OF this o]
    show "V_m_OnNotification obj = V_closure (R_acts_on (the (R_heap rw h))) (cache h)"
      by simp
  qed
  note mem = V_SendNotification_mem [OF v caching]
  have heap': "R_heap rw' h =
        (if h \<in> set ?xs
         then map_option (\<lambda>obj. R_OnNotification obj (R_subject rw) tag) (R_heap rw h)
         else R_heap rw h)" for h
    using rf by simp
  have vheap': "V_heap vw' = V_heap vw"
    using vf by simp
  have dom': "dom (R_heap rw') = dom (R_heap rw)"
    by (auto simp: heap' split: if_splits)
  have live: "h \<in> dom (R_heap rw)" if "h \<in> set ?xs" for h
    using True that by (auto simp: R_live_def list_all_iff)
  have rel': "V_m_OnNotification vobj = V_closure (R_acts_on robj') (cache h) \<and>
      V_mem vw' (cache h) = R_GetValue robj'"
    if h': "R_heap rw' h = Some robj'" and vo': "V_heap vw' h = Some vobj" for h robj' vobj
  proof -
    from vo' have vo: "V_heap vw h = Some vobj"
      by (simp add: vheap')
    from h' obtain robj where ro: "R_heap rw h = Some robj"
      using dom' by (metis domD domI)
    note k = rel [OF ro vo]
    have ex: "(\<exists>p\<in>set ?xs. ?acts p = tag \<and> cache p = cache h) \<longleftrightarrow>
        (h \<in> set ?xs \<and> R_acts_on robj = tag)"
    proof
      assume "\<exists>p\<in>set ?xs. ?acts p = tag \<and> cache p = cache h"
      then obtain p where p: "p \<in> set ?xs" "?acts p = tag" "cache p = cache h"
        by blast
      have "h \<in> dom (R_heap rw)"
        using ro by auto
      with live [OF p(1)] p(3) inj have "p = h"
        by (auto dest: inj_onD)
      with p ro show "h \<in> set ?xs \<and> R_acts_on robj = tag"
        by simp
    next
      assume "h \<in> set ?xs \<and> R_acts_on robj = tag"
      with ro have "h \<in> set ?xs" "?acts h = tag \<and> cache h = cache h"
        by simp_all
      then show "\<exists>p\<in>set ?xs. ?acts p = tag \<and> cache p = cache h"
        by (rule bexI [rotated])
    qed
    have m: "V_mem vw' (cache h) =
       (if h \<in> set ?xs \<and> R_acts_on robj = tag
        then (case tag of ValueA \<Rightarrow> R_m_ValueA (R_subject rw) | ValueB \<Rightarrow> R_m_ValueB (R_subject rw))
        else R_GetValue robj)"
      unfolding mem [of "cache h"] xs ex va vb using k by simp
    show ?thesis
    proof (cases "h \<in> set ?xs")
      case True
      with h' ro have "robj' = R_OnNotification robj (R_subject rw) tag"
        by (simp add: heap')
      then show ?thesis
        using k m True by (simp add: R_OnNotification_GetValue)
    next
      case False
      with h' ro have "robj' = robj"
        by (simp add: heap')
      then show ?thesis
        using k m False by simp
    qed
  qed
  have "corresponding cache rw' vw'"
    unfolding corresponding_def
  proof (intro conjI allI impI)
    show "R_m_Observers (R_subject rw') = V_m_Observers (V_subject vw')"
      using rf vf xs by simp
    show "R_m_ValueA (R_subject rw') = V_m_ValueA (V_subject vw')"
      using rf vf va by simp
    show "R_m_ValueB (R_subject rw') = V_m_ValueB (V_subject vw')"
      using rf vf vb by simp
    show "dom (R_heap rw') = dom (V_heap vw')"
      using dom' doms vheap' by simp
    show "inj_on cache (dom (R_heap rw'))"
      using inj dom' by simp
  next
    fix h robj vobj
    assume a: "R_heap rw' h = Some robj \<and> V_heap vw' h = Some vobj"
    then show "V_m_OnNotification vobj = V_closure (R_acts_on robj) (cache h)"
      using rel' [of h robj vobj] by simp
    from a show "V_mem vw' (cache h) = R_GetValue robj"
      using rel' [of h robj vobj] by simp
  qed
  then show ?thesis
    using r v by simp
qed

lemma corresponding_apply:
  assumes c: "corresponding cache rw vw"
  shows "rel_sum (=) (corresponding cache) (R_apply op rw) (V_apply op vw)"
proof (cases op)
  case (AttachObserver p)
  have "corresponding cache (R_AttachObserver p rw) (V_AttachObserver p vw)"
    using c by (auto simp: corresponding_def R_AttachObserver_def V_AttachObserver_def)
  then show ?thesis
    by (simp add: AttachObserver)
next
  case (DetachObserver p)
  have "corresponding cache (R_DetachObserver p rw) (V_DetachObserver p vw)"
    using c by (auto simp: corresponding_def R_DetachObserver_def V_DetachObserver_def)
  then show ?thesis
    by (simp add: DetachObserver)
next
  case (SetValueA v)
  have "corresponding cache (rw\<lparr>R_subject := (R_subject rw)\<lparr>R_m_ValueA := v\<rparr>\<rparr>)
          (vw\<lparr>V_subject := (V_subject vw)\<lparr>V_m_ValueA := v\<rparr>\<rparr>)"
    using c by (auto simp: corresponding_def)
  from corresponding_SendNotification [OF this, of ValueA] show ?thesis
    by (simp add: SetValueA R_SetValueA_def V_SetValueA_def)
next
  case (SetValueB v)
  have "corresponding cache (rw\<lparr>R_subject := (R_subject rw)\<lparr>R_m_ValueB := v\<rparr>\<rparr>)
          (vw\<lparr>V_subject := (V_subject vw)\<lparr>V_m_ValueB := v\<rparr>\<rparr>)"
    using c by (auto simp: corresponding_def)
  from corresponding_SendNotification [OF this, of ValueB] show ?thesis
    by (simp add: SetValueB R_SetValueB_def V_SetValueB_def)
qed

lemma corresponding_observe:
  assumes c: "corresponding cache rw vw"
  shows "R_observe hs rw = V_observe cache hs vw"
proof -
  have "R_cached rw h = V_cached cache vw h" for h
  proof (cases "R_heap rw h")
    case None
    then have "h \<notin> dom (R_heap rw)"
      by auto
    moreover have "dom (R_heap rw) = dom (V_heap vw)"
      using c by (simp add: corresponding_def)
    ultimately have "V_heap vw h = None"
      by auto
    with None show ?thesis
      by (simp add: R_cached_def V_cached_def)
  next
    case (Some robj)
    then have "h \<in> dom (V_heap vw)"
      using c by (auto simp: corresponding_def)
    then obtain vobj where vo: "V_heap vw h = Some vobj"
      by auto
    moreover from c have "\<forall>h robj vobj. R_heap rw h = Some robj \<and> V_heap vw h = Some vobj \<longrightarrow>
         V_m_OnNotification vobj = V_closure (R_acts_on robj) (cache h) \<and>
         V_mem vw (cache h) = R_GetValue robj"
      by (simp add: corresponding_def)
    ultimately have "V_mem vw (cache h) = R_GetValue robj"
      using Some by blast
    with Some vo show ?thesis
      by (simp add: R_cached_def V_cached_def)
  qed
  then show ?thesis
    using c by (simp add: R_observe_def V_observe_def corresponding_def
        R_GetValueA_def R_GetValueB_def V_GetValueA_def V_GetValueB_def)
qed

text \<open>
  C2: from behaviourally corresponding worlds, every sequence of \<open>AttachObserver\<close>,
  \<open>DetachObserver\<close>, \<open>SetValueA\<close> and \<open>SetValueB\<close> calls gives the same observations
  after every step in \<open>ReferenceSemantics\<close> and in \<open>ValueSemantics\<close>: the same
  \<open>GetValueA()\<close>, \<open>GetValueB()\<close> and cached value of every observer, and undefined
  behaviour at the same step if at all.
\<close>

theorem variants_observationally_equal:
  "corresponding cache rw vw \<Longrightarrow> R_trace hs ops rw = V_trace cache hs ops vw"
proof (induction ops arbitrary: rw vw)
  case Nil
  then show ?case by simp
next
  case (Cons op ops)
  note step = corresponding_apply [OF Cons.prems, of op]
  show ?case
  proof (cases "R_apply op rw")
    case (Inl a)
    with step obtain b where "V_apply op vw = Inl b" "a = b"
      by (cases "V_apply op vw") auto
    with Inl show ?thesis by simp
  next
    case (Inr rw')
    with step obtain vw' where v: "V_apply op vw = Inr vw'" and c': "corresponding cache rw' vw'"
      by (cases "V_apply op vw") auto
    from Cons.IH [OF c'] corresponding_observe [OF c', of hs] Inr v show ?thesis
      by simp
  qed
qed


theorem variants_observationally_equal_witness:
  "corresponding (V_unit_test_cache 10 20 30) (R_unit_test 10 20 30) (V_unit_test 10 20 30 (\<lambda>x. 0)) \<and>
   R_trace [10, 20, 30, 40]
     [SetValueB 7, DetachObserver 20, SetValueB 8, AttachObserver 40, SetValueA 9]
     (R_unit_test 10 20 30) =
   V_trace (V_unit_test_cache 10 20 30) [10, 20, 30, 40]
     [SetValueB 7, DetachObserver 20, SetValueB 8, AttachObserver 40, SetValueA 9]
     (V_unit_test 10 20 30 (\<lambda>x. 0)) \<and>
   R_trace [10, 20, 30, 40]
     [SetValueB 7, DetachObserver 20, SetValueB 8, AttachObserver 40, SetValueA 9]
     (R_unit_test 10 20 30) =
   [Inr (0, 7, [Some 0, Some 7, Some 7, None]), Inr (0, 7, [Some 0, Some 7, Some 7, None]),
    Inr (0, 8, [Some 0, Some 7, Some 8, None]), Inr (0, 8, [Some 0, Some 7, Some 8, None]),
    Inl DanglingObserver]"
proof -
  have "R_trace [10, 20, 30, 40]
     [SetValueB 7, DetachObserver 20, SetValueB 8, AttachObserver 40, SetValueA 9]
     (R_unit_test 10 20 30) =
   [Inr (0, 7, [Some 0, Some 7, Some 7, None]), Inr (0, 7, [Some 0, Some 7, Some 7, None]),
    Inr (0, 8, [Some 0, Some 7, Some 8, None]), Inr (0, 8, [Some 0, Some 7, Some 8, None]),
    Inl DanglingObserver]"
    by (simp add: unit_test_defs R_defs R_observe_def R_cached_def)
  then show ?thesis
    using unit_test_corresponding
      variants_observationally_equal [OF unit_test_corresponding, of "[10, 20, 30, 40]"
        "[SetValueB 7, DetachObserver 20, SetValueB 8, AttachObserver 40, SetValueA 9]"]
    by simp
qed


end
